theory Spec2Isabelle
  imports Complex_Main "HOL-Library.AList"
begin

section \<open>Data model\<close>

text \<open>
  The task orchestration core of the server: the task store (class TaskStore of
  storage/taskStore.js), the session store (class SessionStore), the in-memory task queue
  (class TaskQueue of services/taskQueue.js) and the webhook notifier (class
  WebhookNotifier).

  Timestamps: the source keeps ISO-8601 strings made by \<open>this.now()\<close> and compares them
  through \<open>new Date(s)\<close>, that is by their millisecond value. The model keeps the
  millisecond value itself, a \<open>nat\<close>. The clock is a parameter \<open>now\<close> of every operation
  that reads it. Identifiers come from \<open>generateId()\<close> of the base store, which is not part
  of the sources at hand: an operation that creates a record takes the new identifier as a
  parameter.
\<close>

datatype task_status = Pending | Processing | Completed | Failed | Cancelled

type_synonym metadata = "(string \<times> string) list"

record task =
  task_id :: string
  created_at :: nat
  updated_at :: nat
  status :: task_status
  prompt :: string
  project_path :: "string option"
  model :: string
  priority :: int
  result :: "string option"
  error :: "string option"
  started_at :: "nat option"
  completed_at :: "nat option"
  duration_ms :: "int option"
  cost_usd :: real
  session_id :: "string option"
  metadata :: metadata

text \<open>
  The argument of \<open>TaskStore.create\<close>: a JavaScript object, whose keys may be absent.
  \<open>td_session_id\<close> is a key a caller may supply although \<open>create\<close> never reads it.
\<close>

record task_data =
  td_prompt :: string
  td_project_path :: "string option"
  td_model :: "string option"
  td_priority :: "int option"
  td_metadata :: "metadata option"
  td_session_id :: "string option"

text \<open>
  The argument of \<open>TaskStore.update\<close>: an object that is spread over the stored record.
  A key that is absent (\<open>None\<close>) leaves the field alone; a key that is present overwrites
  it, also with \<open>null\<close> (\<open>Some None\<close> for a nullable field).
\<close>

record task_patch =
  p_status :: "task_status option"
  p_priority :: "int option"
  p_result :: "string option option"
  p_error :: "string option option"
  p_started_at :: "nat option option"
  p_completed_at :: "nat option option"
  p_duration_ms :: "int option option"
  p_cost_usd :: "real option"
  p_session_id :: "string option option"
  p_metadata :: "metadata option"

definition no_patch :: task_patch where
  "no_patch = \<lparr> p_status = None, p_priority = None, p_result = None, p_error = None,
     p_started_at = None, p_completed_at = None, p_duration_ms = None, p_cost_usd = None,
     p_session_id = None, p_metadata = None \<rparr>"

section \<open>TaskStore\<close>

definition default_model :: string where
  "default_model = ''claude-sonnet-4-5''"

text \<open>\<open>x || d\<close> on an optional string: undefined, null and the empty string give \<open>d\<close>.\<close>

definition or_string :: "string option \<Rightarrow> string \<Rightarrow> string" where
  "or_string x d = (case x of None \<Rightarrow> d | Some s \<Rightarrow> if s = [] then d else s)"

text \<open>\<open>x || d\<close> on an optional number: undefined, null and 0 give \<open>d\<close>.\<close>

definition or_int :: "int option \<Rightarrow> int \<Rightarrow> int" where
  "or_int x d = (case x of None \<Rightarrow> d | Some n \<Rightarrow> if n = 0 then d else n)"

definition new_task :: "nat \<Rightarrow> string \<Rightarrow> task_data \<Rightarrow> task" where
  "new_task now tid taskData =
     \<lparr> task_id = tid, created_at = now, updated_at = now, status = Pending,
       prompt = td_prompt taskData, project_path = td_project_path taskData,
       model = or_string (td_model taskData) default_model,
       priority = or_int (td_priority taskData) 5,
       result = None, error = None, started_at = None, completed_at = None,
       duration_ms = None, cost_usd = 0, session_id = None,
       metadata = (case td_metadata taskData of None \<Rightarrow> [] | Some m \<Rightarrow> m) \<rparr>"

definition create :: "nat \<Rightarrow> string \<Rightarrow> task list \<Rightarrow> task_data \<Rightarrow> task \<times> task list" where
  "create now tid tasks taskData =
     (let t = new_task now tid taskData in (t, tasks @ [t]))"

text \<open>\<open>tasks.find(t => t.id === taskId)\<close>: the first task with the identifier.\<close>

definition get :: "task list \<Rightarrow> string \<Rightarrow> task option" where
  "get tasks taskId = find (\<lambda>t. task_id t = taskId) tasks"

text \<open>\<open>tasks.findIndex(p)\<close>, with \<open>None\<close> for -1.\<close>

fun findIndex :: "('a \<Rightarrow> bool) \<Rightarrow> 'a list \<Rightarrow> nat option" where
  "findIndex P [] = None"
| "findIndex P (x # xs) =
     (if P x then Some 0 else map_option Suc (findIndex P xs))"

text \<open>\<open>{...task, ...updates, updated_at: this.now()}\<close>\<close>

definition merge :: "nat \<Rightarrow> task \<Rightarrow> task_patch \<Rightarrow> task" where
  "merge now t u =
     t \<lparr> status := (case p_status u of None \<Rightarrow> status t | Some v \<Rightarrow> v),
         priority := (case p_priority u of None \<Rightarrow> priority t | Some v \<Rightarrow> v),
         result := (case p_result u of None \<Rightarrow> result t | Some v \<Rightarrow> v),
         error := (case p_error u of None \<Rightarrow> error t | Some v \<Rightarrow> v),
         started_at := (case p_started_at u of None \<Rightarrow> started_at t | Some v \<Rightarrow> v),
         completed_at := (case p_completed_at u of None \<Rightarrow> completed_at t | Some v \<Rightarrow> v),
         duration_ms := (case p_duration_ms u of None \<Rightarrow> duration_ms t | Some v \<Rightarrow> v),
         cost_usd := (case p_cost_usd u of None \<Rightarrow> cost_usd t | Some v \<Rightarrow> v),
         session_id := (case p_session_id u of None \<Rightarrow> session_id t | Some v \<Rightarrow> v),
         metadata := (case p_metadata u of None \<Rightarrow> metadata t | Some v \<Rightarrow> v),
         updated_at := now \<rparr>"

text \<open>
  \<open>update\<close> returns the merged record, or \<open>null\<close> (\<open>None\<close>) when no task has the
  identifier, together with the store's task list.
\<close>

definition update :: "nat \<Rightarrow> task list \<Rightarrow> string \<Rightarrow> task_patch \<Rightarrow> task option \<times> task list" where
  "update now tasks taskId updates =
     (case findIndex (\<lambda>t. task_id t = taskId) tasks of
        None \<Rightarrow> (None, tasks)
      | Some i \<Rightarrow> (let t = merge now (tasks ! i) updates in (Some t, tasks[i := t])))"

text \<open>
  The comparator of \<open>list\<close> and \<open>getNextPending\<close>: negative when \<open>a\<close> goes first.
\<close>

definition compareTasks :: "task \<Rightarrow> task \<Rightarrow> int" where
  "compareTasks a b =
     (if priority a \<noteq> priority b then priority b - priority a
      else int (created_at a) - int (created_at b))"

text \<open>
  \<open>Array.prototype.sort\<close> is stable, and for a comparator that is a total preorder every
  stable sort returns the same array. It is modelled by the insertion sort that keeps an
  element in front of the later elements it ties with.
\<close>

fun insertBy :: "('a \<Rightarrow> 'a \<Rightarrow> int) \<Rightarrow> 'a \<Rightarrow> 'a list \<Rightarrow> 'a list" where
  "insertBy cmp x [] = [x]"
| "insertBy cmp x (y # ys) =
     (if cmp x y \<le> 0 then x # y # ys else y # insertBy cmp x ys)"

definition sortBy :: "('a \<Rightarrow> 'a \<Rightarrow> int) \<Rightarrow> 'a list \<Rightarrow> 'a list" where
  "sortBy cmp xs = foldr (insertBy cmp) xs []"

text \<open>
  \<open>tasks.slice(0, limit)\<close> behind \<open>if (options.limit)\<close>: no limit and the limit 0 keep
  everything, a negative limit drops that many tasks from the end.
\<close>

definition slice_limit :: "int option \<Rightarrow> 'a list \<Rightarrow> 'a list" where
  "slice_limit limit xs =
     (case limit of
        None \<Rightarrow> xs
      | Some n \<Rightarrow>
          if n = 0 then xs
          else if 0 < n then take (nat n) xs
          else take (length xs - nat (- n)) xs)"

text \<open>
  \<open>list({status, limit})\<close>. Without a status the source sorts the store's own array in
  place; the sort being stable, that changes neither the tasks nor the order of tasks that
  tie, and the model returns the listing only.
\<close>

definition list_tasks :: "task_status option \<Rightarrow> int option \<Rightarrow> task list \<Rightarrow> task list" where
  "list_tasks st limit tasks =
     slice_limit limit
       (sortBy compareTasks
          (case st of None \<Rightarrow> tasks | Some s \<Rightarrow> filter (\<lambda>t. status t = s) tasks))"

definition getNextPending :: "task list \<Rightarrow> task option" where
  "getNextPending tasks =
     (case sortBy compareTasks (filter (\<lambda>t. status t = Pending) tasks) of
        [] \<Rightarrow> None
      | t # _ \<Rightarrow> Some t)"

definition markProcessing :: "nat \<Rightarrow> task list \<Rightarrow> string \<Rightarrow> task option \<times> task list" where
  "markProcessing now tasks taskId =
     update now tasks taskId
       (no_patch \<lparr> p_status := Some Processing, p_started_at := Some (Some now) \<rparr>)"

text \<open>\<open>task.started_at ? Date.now() - new Date(task.started_at).getTime() : null\<close>\<close>

definition duration_since :: "nat \<Rightarrow> task \<Rightarrow> int option" where
  "duration_since now t =
     (case started_at t of None \<Rightarrow> None | Some s \<Rightarrow> Some (int now - int s))"

text \<open>\<open>markCompleted(taskId, result, costUsd = 0)\<close>: an undefined cost is 0.\<close>

definition markCompleted ::
  "nat \<Rightarrow> task list \<Rightarrow> string \<Rightarrow> string option \<Rightarrow> real option \<Rightarrow> task option \<times> task list" where
  "markCompleted now tasks taskId res costUsd =
     (case get tasks taskId of
        None \<Rightarrow> (None, tasks)
      | Some t \<Rightarrow>
          update now tasks taskId
            (no_patch \<lparr> p_status := Some Completed, p_completed_at := Some (Some now),
               p_result := Some res,
               p_cost_usd := Some (case costUsd of None \<Rightarrow> 0 | Some c \<Rightarrow> c),
               p_duration_ms := Some (duration_since now t) \<rparr>))"

definition markFailed ::
  "nat \<Rightarrow> task list \<Rightarrow> string \<Rightarrow> string option \<Rightarrow> task option \<times> task list" where
  "markFailed now tasks taskId err =
     (case get tasks taskId of
        None \<Rightarrow> (None, tasks)
      | Some t \<Rightarrow>
          update now tasks taskId
            (no_patch \<lparr> p_status := Some Failed, p_completed_at := Some (Some now),
               p_error := Some err,
               p_duration_ms := Some (duration_since now t) \<rparr>))"

definition cancel :: "nat \<Rightarrow> task list \<Rightarrow> string \<Rightarrow> task option \<times> task list" where
  "cancel now tasks taskId =
     (case get tasks taskId of
        None \<Rightarrow> (None, tasks)
      | Some t \<Rightarrow>
          if status t \<noteq> Pending \<and> status t \<noteq> Processing then (None, tasks)
          else update now tasks taskId
                 (no_patch \<lparr> p_status := Some Cancelled, p_completed_at := Some (Some now) \<rparr>))"

section \<open>TaskQueue\<close>

text \<open>
  The queue's methods are \<open>async\<close>: a call runs until its next \<open>await\<close>, and other
  continuations may run before it resumes. The model has one function for every piece of
  a method between two suspension points and an event for every resumption; a schedule is
  a list of events, each with the time at which it runs. A store call (\<open>getNextPending\<close>,
  \<open>markProcessing\<close>, \<open>markCompleted\<close>, ...) takes effect at the event that resumes its
  caller. The calls to the webhook notifier are left out: they read the task identifier
  and the result and touch neither the store nor the active set.
\<close>

record active_entry =
  ae_task :: task
  ae_startedAt :: nat

text \<open>Where a suspended call of \<open>processQueue\<close> waits.\<close>

datatype pq_wait = AwaitNextPending | AwaitMarkProcessing task

text \<open>What \<open>claudeExecutor.execute\<close> resolves to: \<open>{success: true, result, cost_usd}\<close>
  or \<open>{success: false, error}\<close>.\<close>

datatype exec_result =
    Exec_success "string option" "real option"
  | Exec_failure "string option"

record task_queue =
  concurrency :: nat
  defaultTimeout :: nat
  running :: bool
  activeTasks :: "(string \<times> active_entry) list"
  pendingCheckInterval :: bool
  taskStore :: "task list"
  dispatches :: "(nat \<times> pq_wait) list"
  executions :: "string list"
  timeouts :: "string list"
  emitted :: "(string \<times> string) list"

text \<open>
  \<open>dispatches\<close> holds the suspended calls of \<open>processQueue\<close> by call number,
  \<open>executions\<close> the tasks whose \<open>executeTask\<close> awaits the executor, \<open>timeouts\<close> the
  tasks whose timeout timer is armed, \<open>emitted\<close> the events emitted so far (newest first).
\<close>

definition or_nat :: "nat option \<Rightarrow> nat \<Rightarrow> nat" where
  "or_nat x d = (case x of None \<Rightarrow> d | Some n \<Rightarrow> if n = 0 then d else n)"

text \<open>The constructor, from \<open>config.taskQueue?.concurrency\<close> and \<open>defaultTimeout\<close>.\<close>

definition new_TaskQueue :: "nat option \<Rightarrow> nat option \<Rightarrow> task list \<Rightarrow> task_queue" where
  "new_TaskQueue cfg_concurrency cfg_timeout store =
     \<lparr> concurrency = or_nat cfg_concurrency 3,
       defaultTimeout = or_nat cfg_timeout 300000,
       running = False, activeTasks = [], pendingCheckInterval = False,
       taskStore = store, dispatches = [], executions = [], timeouts = [], emitted = [] \<rparr>"

definition addTask :: "nat \<Rightarrow> string \<Rightarrow> task_data \<Rightarrow> task_queue \<Rightarrow> task_queue" where
  "addTask now tid taskData q =
     q \<lparr> taskStore := snd (create now tid (taskStore q) taskData) \<rparr>"

text \<open>\<open>processQueue\<close> up to \<open>await this.taskStore.getNextPending()\<close>.\<close>

definition processQueue_enter :: "nat \<Rightarrow> task_queue \<Rightarrow> task_queue" where
  "processQueue_enter n q =
     (if \<not> running q then q
      else if concurrency q \<le> length (activeTasks q) then q
      else q \<lparr> dispatches := AList.update n AwaitNextPending (dispatches q) \<rparr>)"

text \<open>
  \<open>getNextPending\<close> resolves; \<open>processQueue\<close> runs on to
  \<open>await this.taskStore.markProcessing(task.id)\<close>.
\<close>

definition processQueue_next :: "nat \<Rightarrow> nat \<Rightarrow> task_queue \<Rightarrow> task_queue" where
  "processQueue_next now n q =
     (case map_of (dispatches q) n of
        Some AwaitNextPending \<Rightarrow>
          (case getNextPending (taskStore q) of
             None \<Rightarrow> q \<lparr> dispatches := AList.delete n (dispatches q) \<rparr>
           | Some t \<Rightarrow>
               if map_of (activeTasks q) (task_id t) \<noteq> None
               then q \<lparr> dispatches := AList.delete n (dispatches q) \<rparr>
               else q \<lparr> activeTasks :=
                          AList.update (task_id t) \<lparr> ae_task = t, ae_startedAt = now \<rparr>
                            (activeTasks q),
                        dispatches := AList.update n (AwaitMarkProcessing t) (dispatches q) \<rparr>)
      | _ \<Rightarrow> q)"

text \<open>\<open>executeTask\<close> up to \<open>await this.claudeExecutor.execute(...)\<close>.\<close>

definition executeTask_begin :: "nat \<Rightarrow> task \<Rightarrow> task_queue \<Rightarrow> task_queue" where
  "executeTask_begin now t q =
     q \<lparr> activeTasks :=
           AList.update (task_id t) \<lparr> ae_task = t, ae_startedAt = now \<rparr> (activeTasks q),
         timeouts := task_id t # timeouts q,
         executions := task_id t # executions q \<rparr>"

text \<open>\<open>markProcessing\<close> resolves; \<open>processQueue\<close> calls \<open>executeTask\<close> and returns.\<close>

definition processQueue_marked :: "nat \<Rightarrow> nat \<Rightarrow> task_queue \<Rightarrow> task_queue" where
  "processQueue_marked now n q =
     (case map_of (dispatches q) n of
        Some (AwaitMarkProcessing t) \<Rightarrow>
          executeTask_begin now t
            (q \<lparr> taskStore := snd (markProcessing now (taskStore q) (task_id t)),
                 dispatches := AList.delete n (dispatches q) \<rparr>)
      | _ \<Rightarrow> q)"

text \<open>\<open>markProcessing\<close> throws; the \<open>catch\<close> gives the slot back.\<close>

definition processQueue_markError :: "nat \<Rightarrow> task_queue \<Rightarrow> task_queue" where
  "processQueue_markError n q =
     (case map_of (dispatches q) n of
        Some (AwaitMarkProcessing t) \<Rightarrow>
          q \<lparr> activeTasks := AList.delete (task_id t) (activeTasks q),
              dispatches := AList.delete n (dispatches q) \<rparr>
      | _ \<Rightarrow> q)"

text \<open>
  The executor resolves: \<open>clearTimeout\<close>, \<open>markCompleted\<close> or \<open>markFailed\<close>, the event,
  and the \<open>finally\<close> block.
\<close>

definition executeTask_resolved :: "nat \<Rightarrow> string \<Rightarrow> exec_result \<Rightarrow> task_queue \<Rightarrow> task_queue" where
  "executeTask_resolved now taskId res q =
     (if taskId \<notin> set (executions q) then q
      else
        q \<lparr> timeouts := remove1 taskId (timeouts q),
            taskStore :=
              (case res of
                 Exec_success r c \<Rightarrow> snd (markCompleted now (taskStore q) taskId r c)
               | Exec_failure e \<Rightarrow> snd (markFailed now (taskStore q) taskId e)),
            emitted :=
              (case res of
                 Exec_success r c \<Rightarrow> (''taskCompleted'', taskId)
               | Exec_failure e \<Rightarrow> (''taskFailed'', taskId)) # emitted q,
            activeTasks := AList.delete taskId (activeTasks q),
            executions := remove1 taskId (executions q) \<rparr>)"

text \<open>The executor throws: the \<open>catch\<close> block and the \<open>finally\<close> block.\<close>

definition executeTask_rejected :: "nat \<Rightarrow> string \<Rightarrow> string \<Rightarrow> task_queue \<Rightarrow> task_queue" where
  "executeTask_rejected now taskId msg q =
     (if taskId \<notin> set (executions q) then q
      else
        q \<lparr> timeouts := remove1 taskId (timeouts q),
            taskStore := snd (markFailed now (taskStore q) taskId (Some msg)),
            emitted := (''taskFailed'', taskId) # emitted q,
            activeTasks := AList.delete taskId (activeTasks q),
            executions := remove1 taskId (executions q) \<rparr>)"

text \<open>The timeout timer of \<open>executeTask\<close> fires.\<close>

definition executeTask_timeout :: "nat \<Rightarrow> string \<Rightarrow> task_queue \<Rightarrow> task_queue" where
  "executeTask_timeout now taskId q =
     (if taskId \<notin> set (timeouts q) then q
      else
        q \<lparr> timeouts := remove1 taskId (timeouts q),
            taskStore :=
              snd (markFailed now (taskStore q) taskId (Some ''Task execution timeout'')),
            activeTasks := AList.delete taskId (activeTasks q),
            emitted := (''taskFailed'', taskId) # emitted q \<rparr>)"

fun status_name :: "task_status \<Rightarrow> string" where
  "status_name Pending = ''pending''"
| "status_name Processing = ''processing''"
| "status_name Completed = ''completed''"
| "status_name Failed = ''failed''"
| "status_name Cancelled = ''cancelled''"

text \<open>\<open>cancelTask\<close> returns \<open>{success: true}\<close> (\<open>Inr ()\<close>) or \<open>{success: false, error}\<close>.\<close>

definition cancelTask :: "nat \<Rightarrow> string \<Rightarrow> task_queue \<Rightarrow> (string + unit) \<times> task_queue" where
  "cancelTask now taskId q =
     (case get (taskStore q) taskId of
        None \<Rightarrow> (Inl ''Task not found'', q)
      | Some t \<Rightarrow>
          if status t \<noteq> Pending \<and> status t \<noteq> Processing
          then (Inl (''Cannot cancel task with status: '' @ status_name (status t)), q)
          else
            (let q1 = q \<lparr> activeTasks := AList.delete taskId (activeTasks q) \<rparr>;
                 r = cancel now (taskStore q1) taskId
             in case fst r of
                  Some c \<Rightarrow>
                    (Inr (), q1 \<lparr> taskStore := snd r,
                                  emitted := (''taskCancelled'', taskId) # emitted q1 \<rparr>)
                | None \<Rightarrow> (Inl ''Failed to cancel task'', q1 \<lparr> taskStore := snd r \<rparr>)))"

text \<open>
  \<open>restorePendingTasks\<close>: every task listed as processing is updated to pending, one
  \<open>update\<close> call each.
\<close>

definition restorePendingTasks :: "nat \<Rightarrow> task list \<Rightarrow> task list" where
  "restorePendingTasks now tasks =
     foldl (\<lambda>ts t. snd (update now ts (task_id t) (no_patch \<lparr> p_status := Some Pending \<rparr>)))
       tasks (list_tasks (Some Processing) None tasks)"

text \<open>
  \<open>start\<close>; \<open>n\<close> numbers the call of \<open>processQueue\<close> it makes. The poll timer's calls of
  \<open>processQueue\<close> are events of their own.
\<close>

definition start :: "nat \<Rightarrow> nat \<Rightarrow> task_queue \<Rightarrow> task_queue" where
  "start now n q =
     (if running q then q
      else
        (let q1 = q \<lparr> running := True \<rparr>;
             q2 = q1 \<lparr> taskStore := restorePendingTasks now (taskStore q1) \<rparr>;
             q3 = processQueue_enter n q2
         in q3 \<lparr> pendingCheckInterval := True \<rparr>))"

text \<open>\<open>stop\<close> up to its waiting loop.\<close>

definition stop_begin :: "task_queue \<Rightarrow> task_queue" where
  "stop_begin q =
     (if \<not> running q then q
      else q \<lparr> running := False, pendingCheckInterval := False \<rparr>)"

datatype event =
    AddTask string task_data
  | ProcessQueue nat
  | NextPendingResolved nat
  | MarkProcessingResolved nat
  | MarkProcessingRejected nat
  | ExecutorResolved string exec_result
  | ExecutorRejected string string
  | TimeoutFired string
  | CancelTask string
  | Start nat
  | Stop

fun step :: "nat \<Rightarrow> event \<Rightarrow> task_queue \<Rightarrow> task_queue" where
  "step now (AddTask tid taskData) q = addTask now tid taskData q"
| "step now (ProcessQueue n) q = processQueue_enter n q"
| "step now (NextPendingResolved n) q = processQueue_next now n q"
| "step now (MarkProcessingResolved n) q = processQueue_marked now n q"
| "step now (MarkProcessingRejected n) q = processQueue_markError n q"
| "step now (ExecutorResolved tid res) q = executeTask_resolved now tid res q"
| "step now (ExecutorRejected tid msg) q = executeTask_rejected now tid msg q"
| "step now (TimeoutFired tid) q = executeTask_timeout now tid q"
| "step now (CancelTask tid) q = snd (cancelTask now tid q)"
| "step now (Start n) q = start now n q"
| "step now Stop q = stop_begin q"

fun run :: "(nat \<times> event) list \<Rightarrow> task_queue \<Rightarrow> task_queue" where
  "run [] q = q"
| "run ((now, ev) # evs) q = run evs (step now ev q)"

text \<open>
  The waiting loop of \<open>stop\<close>:
  \<^verbatim>\<open>while (this.activeTasks.size > 0) { await new Promise(r => setTimeout(r, 100)); }\<close>
  What the loop sees is decided by the executions that finish while it sleeps:
  \<open>sizeAt k\<close> is the size of the active set at the loop's test number \<open>k\<close>. The loop
  returns the number of 100 ms sleeps it made; when the active set never drains it does
  not return (\<open>None\<close>). The 10 s timer that \<open>stop\<close> arms before the loop only writes a
  log line, and is cleared after the loop.
\<close>

partial_function (option) stop_wait :: "(nat \<Rightarrow> nat) \<Rightarrow> nat \<Rightarrow> nat option" where
  "stop_wait sizeAt k = (if 0 < sizeAt k then stop_wait sizeAt (Suc k) else Some k)"

text \<open>\<open>stop\<close>: the queue after it and the milliseconds slept, if it returns.\<close>

definition stop :: "(nat \<Rightarrow> nat) \<Rightarrow> task_queue \<Rightarrow> (task_queue \<times> nat) option" where
  "stop sizeAt q =
     (if \<not> running q then Some (q, 0)
      else map_option (\<lambda>k. (stop_begin q, 100 * k)) (stop_wait sizeAt 0))"

section \<open>SessionStore\<close>

datatype session_status = Active | Archived

record session =
  s_id :: string
  s_created_at :: nat
  s_updated_at :: nat
  s_model :: string
  s_project_path :: "string option"
  total_cost_usd :: real
  messages_count :: int
  s_status :: session_status
  s_metadata :: metadata

record session_data =
  sd_model :: "string option"
  sd_project_path :: "string option"
  sd_metadata :: "metadata option"

record session_patch =
  sp_status :: "session_status option"
  sp_model :: "string option"
  sp_project_path :: "string option option"
  sp_total_cost_usd :: "real option"
  sp_messages_count :: "int option"
  sp_metadata :: "metadata option"

definition session_create ::
  "nat \<Rightarrow> string \<Rightarrow> session list \<Rightarrow> session_data \<Rightarrow> session \<times> session list" where
  "session_create now sid sessions sessionData =
     (let s = \<lparr> s_id = sid, s_created_at = now, s_updated_at = now,
                 s_model = or_string (sd_model sessionData) default_model,
                 s_project_path = sd_project_path sessionData,
                 total_cost_usd = 0, messages_count = 0, s_status = Active,
                 s_metadata = (case sd_metadata sessionData of None \<Rightarrow> [] | Some m \<Rightarrow> m) \<rparr>
      in (s, sessions @ [s]))"

definition session_get :: "session list \<Rightarrow> string \<Rightarrow> session option" where
  "session_get sessions sessionId = find (\<lambda>s. s_id s = sessionId) sessions"

definition session_merge :: "nat \<Rightarrow> session \<Rightarrow> session_patch \<Rightarrow> session" where
  "session_merge now s u =
     s \<lparr> s_status := (case sp_status u of None \<Rightarrow> s_status s | Some v \<Rightarrow> v),
         s_model := (case sp_model u of None \<Rightarrow> s_model s | Some v \<Rightarrow> v),
         s_project_path := (case sp_project_path u of None \<Rightarrow> s_project_path s | Some v \<Rightarrow> v),
         total_cost_usd := (case sp_total_cost_usd u of None \<Rightarrow> total_cost_usd s | Some v \<Rightarrow> v),
         messages_count := (case sp_messages_count u of None \<Rightarrow> messages_count s | Some v \<Rightarrow> v),
         s_metadata := (case sp_metadata u of None \<Rightarrow> s_metadata s | Some v \<Rightarrow> v),
         s_updated_at := now \<rparr>"

definition session_update ::
  "nat \<Rightarrow> session list \<Rightarrow> string \<Rightarrow> session_patch \<Rightarrow> session option \<times> session list" where
  "session_update now sessions sessionId updates =
     (case findIndex (\<lambda>s. s_id s = sessionId) sessions of
        None \<Rightarrow> (None, sessions)
      | Some i \<Rightarrow>
          (let s = session_merge now (sessions ! i) updates in (Some s, sessions[i := s])))"

text \<open>\<open>sessions.splice(index, 1)\<close>\<close>

definition session_delete :: "session list \<Rightarrow> string \<Rightarrow> bool \<times> session list" where
  "session_delete sessions sessionId =
     (case findIndex (\<lambda>s. s_id s = sessionId) sessions of
        None \<Rightarrow> (False, sessions)
      | Some i \<Rightarrow> (True, take i sessions @ drop (Suc i) sessions))"

text \<open>
  \<open>cleanup(retentionDays)\<close> keeps the sessions updated after the cutoff date. The date
  arithmetic that yields the cutoff (\<open>setDate(getDate() - retentionDays)\<close>) is the
  calendar's; the cutoff is a parameter.
\<close>

definition session_cleanup :: "nat \<Rightarrow> session list \<Rightarrow> session list" where
  "session_cleanup cutoff sessions = filter (\<lambda>s. cutoff < s_updated_at s) sessions"

text \<open>\<open>x || 0\<close> on a number.\<close>

definition or_zero :: "'a::zero \<Rightarrow> 'a" where
  "or_zero x = (if x = 0 then 0 else x)"

definition incrementMessages ::
  "nat \<Rightarrow> session list \<Rightarrow> string \<Rightarrow> session option \<times> session list" where
  "incrementMessages now sessions sessionId =
     (case findIndex (\<lambda>s. s_id s = sessionId) sessions of
        None \<Rightarrow> (None, sessions)
      | Some i \<Rightarrow>
          (let s = (sessions ! i) \<lparr> messages_count := or_zero (messages_count (sessions ! i)) + 1,
                                    s_updated_at := now \<rparr>
           in (Some s, sessions[i := s])))"

definition addCost ::
  "nat \<Rightarrow> session list \<Rightarrow> string \<Rightarrow> real \<Rightarrow> session option \<times> session list" where
  "addCost now sessions sessionId costUsd =
     (case findIndex (\<lambda>s. s_id s = sessionId) sessions of
        None \<Rightarrow> (None, sessions)
      | Some i \<Rightarrow>
          (let s = (sessions ! i) \<lparr> total_cost_usd := or_zero (total_cost_usd (sessions ! i)) + costUsd,
                                    s_updated_at := now \<rparr>
           in (Some s, sessions[i := s])))"

text \<open>Sequences of calls on the session store.\<close>

datatype session_op =
    S_create string session_data
  | S_update string session_patch
  | S_delete string
  | S_cleanup nat
  | S_incrementMessages string
  | S_addCost string real

fun session_apply :: "nat \<Rightarrow> session_op \<Rightarrow> session list \<Rightarrow> session list" where
  "session_apply now (S_create sid d) ss = snd (session_create now sid ss d)"
| "session_apply now (S_update sid u) ss = snd (session_update now ss sid u)"
| "session_apply now (S_delete sid) ss = snd (session_delete ss sid)"
| "session_apply now (S_cleanup cutoff) ss = session_cleanup cutoff ss"
| "session_apply now (S_incrementMessages sid) ss = snd (incrementMessages now ss sid)"
| "session_apply now (S_addCost sid c) ss = snd (addCost now ss sid c)"

fun session_run :: "(nat \<times> session_op) list \<Rightarrow> session list \<Rightarrow> session list" where
  "session_run [] ss = ss"
| "session_run ((now, x) # xs) ss = session_run xs (session_apply now x ss)"

text \<open>
  Calls that keep costs non-negative: \<open>addCost\<close> with a delta that is not negative, and
  \<open>update\<close> with a patch that sets no negative \<open>total_cost_usd\<close>.
\<close>

fun cost_ok :: "session_op \<Rightarrow> bool" where
  "cost_ok (S_addCost sid c) = (0 \<le> c)"
| "cost_ok (S_update sid u) = (case sp_total_cost_usd u of None \<Rightarrow> True | Some v \<Rightarrow> 0 \<le> v)"
| "cost_ok _ = True"

text \<open>
  Calls that neither remove the session \<open>sid\<close> nor overwrite its \<open>messages_count\<close>:
  no \<open>delete\<close> of it, no \<open>cleanup\<close>, no \<open>update\<close> of it with a \<open>messages_count\<close> key.
\<close>

fun keeps :: "string \<Rightarrow> session_op \<Rightarrow> bool" where
  "keeps sid (S_delete x) = (x \<noteq> sid)"
| "keeps sid (S_cleanup cutoff) = False"
| "keeps sid (S_update x u) = (if x = sid then sp_messages_count u = None else True)"
| "keeps sid _ = True"

definition no_session_patch :: session_patch where
  "no_session_patch = \<lparr> sp_status = None, sp_model = None, sp_project_path = None,
     sp_total_cost_usd = None, sp_messages_count = None, sp_metadata = None \<rparr>"

section \<open>The asynchronous branch of POST /api/claude\<close>

text \<open>
  The server holds the queue and the session store side by side; the queue has no
  reference to the session store. The request is taken after validation, with
  \<open>async: true\<close> and no \<open>stream\<close>. Of the executor options that the route copies into the
  metadata, the string-valued ones are kept.
\<close>

record server =
  queue :: task_queue
  sessionStore :: "session list"
  defaultProjectPath :: "string option"
  defaultModel :: "string option"
  webhook_defaultUrl :: "string option"

record claude_request =
  rq_prompt :: string
  rq_project_path :: "string option"
  rq_model :: "string option"
  rq_session_id :: "string option"
  rq_system_prompt :: "string option"
  rq_agent :: "string option"
  rq_mcp_config :: "string option"
  rq_webhook_url :: "string option"
  rq_priority :: "int option"

text \<open>\<open>a || b\<close> on optional strings.\<close>

definition or_else :: "string option \<Rightarrow> string option \<Rightarrow> string option" where
  "or_else a b = (case a of None \<Rightarrow> b | Some s \<Rightarrow> if s = [] then b else Some s)"

definition entry :: "string \<Rightarrow> string option \<Rightarrow> metadata" where
  "entry k v = (case v of None \<Rightarrow> [] | Some x \<Rightarrow> [(k, x)])"

definition post_claude_async :: "nat \<Rightarrow> string \<Rightarrow> string \<Rightarrow> claude_request \<Rightarrow> server \<Rightarrow> server" where
  "post_claude_async now tid new_sid req srv =
     (let projectPath = or_else (rq_project_path req) (defaultProjectPath srv);
          auto = (or_else (rq_session_id req) None = None);
          sessions =
            (if auto
             then snd (session_create now new_sid (sessionStore srv)
                    \<lparr> sd_model = or_else (rq_model req) (defaultModel srv),
                      sd_project_path = projectPath,
                      sd_metadata = Some [(''auto_created'', ''true'')] \<rparr>)
             else sessionStore srv);
          sessionId = (if auto then Some new_sid else rq_session_id req);
          taskData =
            \<lparr> td_prompt = rq_prompt req, td_project_path = projectPath,
              td_model = rq_model req,
              td_priority = Some (or_int (rq_priority req) 5),
              td_metadata = Some
                (entry ''webhook_url'' (or_else (rq_webhook_url req) (webhook_defaultUrl srv)) @
                 entry ''session_id'' sessionId @
                 entry ''system_prompt'' (rq_system_prompt req) @
                 entry ''agent'' (rq_agent req) @
                 entry ''mcp_config'' (rq_mcp_config req)),
              td_session_id = None \<rparr>
      in srv \<lparr> sessionStore := sessions, queue := addTask now tid taskData (queue srv) \<rparr>)"

datatype server_event =
    CreateSession string session_data
  | PostClaudeAsync string string claude_request
  | Queue event

fun server_step :: "nat \<Rightarrow> server_event \<Rightarrow> server \<Rightarrow> server" where
  "server_step now (CreateSession sid d) srv =
     srv \<lparr> sessionStore := snd (session_create now sid (sessionStore srv) d) \<rparr>"
| "server_step now (PostClaudeAsync tid new_sid req) srv = post_claude_async now tid new_sid req srv"
| "server_step now (Queue ev) srv = srv \<lparr> queue := step now ev (queue srv) \<rparr>"

fun server_run :: "(nat \<times> server_event) list \<Rightarrow> server \<Rightarrow> server" where
  "server_run [] srv = srv"
| "server_run ((now, ev) # evs) srv = server_run evs (server_step now ev srv)"

section \<open>WebhookNotifier\<close>

text \<open>
  \<open>axios.post\<close> either resolves with a response, of which \<open>notify\<close> reads the status, or
  rejects with an error, of which it reads the message. \<open>post k\<close> is what the call of
  attempt \<open>k\<close> does. \<open>notify\<close> returns its result object; the model returns with it the
  list of the posts and the sleeps it made, in order.
\<close>

datatype axios_outcome = Resolved int | Rejected string

datatype last_error = Unexpected_status_code int | Error_message string

datatype notify_result =
    Skipped string
  | Delivered int nat
  | Max_retries_exceeded nat "last_error option"

datatype io = Post nat | Sleep nat

record notifier =
  enabled :: bool
  defaultUrl :: "string option"
  timeout :: nat
  maxRetries :: nat

definition new_WebhookNotifier ::
  "bool option \<Rightarrow> string option \<Rightarrow> nat option \<Rightarrow> nat option \<Rightarrow> notifier" where
  "new_WebhookNotifier cfg_enabled cfg_defaultUrl cfg_timeout cfg_retries =
     \<lparr> enabled = (case cfg_enabled of None \<Rightarrow> False | Some b \<Rightarrow> b),
       defaultUrl = cfg_defaultUrl,
       timeout = or_nat cfg_timeout 5000,
       maxRetries = or_nat cfg_retries 3 \<rparr>"

text \<open>\<open>Math.min(1000 * Math.pow(2, attempt - 1), 10000)\<close>\<close>

definition delay :: "nat \<Rightarrow> nat" where
  "delay attempt = min (1000 * 2 ^ (attempt - 1)) 10000"

text \<open>The \<open>for\<close> loop of \<open>notify\<close>, entered with \<open>attempt = 1\<close> and \<open>lastError = null\<close>.\<close>

function notify_loop ::
  "(nat \<Rightarrow> axios_outcome) \<Rightarrow> nat \<Rightarrow> nat \<Rightarrow> last_error option \<Rightarrow> io list
     \<Rightarrow> notify_result \<times> io list" where
  "notify_loop post maxR attempt lastError tr =
     (if attempt \<le> maxR then
        (case post attempt of
           Resolved st \<Rightarrow>
             if 200 \<le> st \<and> st < 300 then (Delivered st attempt, tr @ [Post attempt])
             else notify_loop post maxR (Suc attempt) (Some (Unexpected_status_code st))
                    (tr @ [Post attempt])
         | Rejected msg \<Rightarrow>
             if attempt < maxR
             then notify_loop post maxR (Suc attempt) (Some (Error_message msg))
                    (tr @ [Post attempt, Sleep (delay attempt)])
             else notify_loop post maxR (Suc attempt) (Some (Error_message msg))
                    (tr @ [Post attempt]))
      else (Max_retries_exceeded maxR lastError, tr))"
  by pat_completeness auto
termination
  by (relation "measure (\<lambda>(post, maxR, attempt, lastError, tr). Suc maxR - attempt)") auto

definition notify ::
  "notifier \<Rightarrow> string option \<Rightarrow> (nat \<Rightarrow> axios_outcome) \<Rightarrow> notify_result \<times> io list" where
  "notify w url_option post =
     (if \<not> enabled w then (Skipped ''disabled'', [])
      else if or_else url_option (defaultUrl w) = None then (Skipped ''no_url'', [])
      else notify_loop post (maxRetries w) 1 None [])"

text \<open>What \<open>notify\<close> counts as a successful attempt: a response with a status from 200 to 299.\<close>

definition is_2xx :: "axios_outcome \<Rightarrow> bool" where
  "is_2xx out = (case out of Resolved st \<Rightarrow> 200 \<le> st \<and> st \<le> 299 | Rejected msg \<Rightarrow> False)"

text \<open>What a failed attempt leaves in \<open>lastError\<close>.\<close>

definition error_of :: "axios_outcome \<Rightarrow> last_error" where
  "error_of out = (case out of Resolved st \<Rightarrow> Unexpected_status_code st
                   | Rejected msg \<Rightarrow> Error_message msg)"

text \<open>
  The HTTP client as \<open>notify\<close> configures it (a timeout and two headers, no
  \<open>validateStatus\<close>): axios resolves for a status from 200 to 299 and rejects for every
  other status, as it does for a network error. \<open>rejects_non_2xx post maxR\<close> says so of
  the attempts 1 to \<open>maxR\<close>.
\<close>

definition rejects_non_2xx :: "(nat \<Rightarrow> axios_outcome) \<Rightarrow> nat \<Rightarrow> bool" where
  "rejects_non_2xx post maxR =
     list_all (\<lambda>k. case post k of Resolved st \<Rightarrow> 200 \<le> st \<and> st \<le> 299 | Rejected msg \<Rightarrow> True)
       [1..<Suc maxR]"

text \<open>The number of attempts behind a result: the attempt that succeeded, or all of them.\<close>

definition attempts_made :: "notify_result \<Rightarrow> nat \<Rightarrow> nat" where
  "attempts_made res maxR = (case res of Delivered st k \<Rightarrow> k | _ \<Rightarrow> maxR)"

text \<open>
  The retry policy in the specification's words: attempts \<open>a\<close> to \<open>n\<close>, and between
  consecutive attempts a sleep of min(1 s * 2^(attempt - 1), 10 s), in milliseconds.
\<close>

definition backoff_schedule :: "nat \<Rightarrow> nat \<Rightarrow> io list" where
  "backoff_schedule a n =
     concat (map (\<lambda>k. if k < n then [Post k, Sleep (min (1000 * 2 ^ (k - 1)) 10000)]
                       else [Post k])
               [a..<Suc n])"

text \<open>The attempts posted, in order.\<close>

fun posts :: "io list \<Rightarrow> nat list" where
  "posts [] = []"
| "posts (Post k # xs) = k # posts xs"
| "posts (Sleep d # xs) = posts xs"

section \<open>Example data\<close>

definition example_data :: task_data where
  "example_data =
     \<lparr> td_prompt = ''a'', td_project_path = None, td_model = None, td_priority = None,
       td_metadata = None, td_session_id = None \<rparr>"

definition example_queue :: task_queue where
  "example_queue = new_TaskQueue (Some 1) None []"

text \<open>
  A queue with concurrency 1 that was started, was given one task and has brought it to
  the executor: the task is processing, its timeout timer is armed.
\<close>

definition started_queue :: task_queue where
  "started_queue =
     run [(0, Start 0), (1, AddTask ''t1'' example_data), (2, ProcessQueue 1),
          (3, NextPendingResolved 1), (4, MarkProcessingResolved 1)] example_queue"

text \<open>The store a crash leaves behind: one task processing, one pending.\<close>

definition crashed_queue :: task_queue where
  "crashed_queue =
     example_queue \<lparr> taskStore :=
       [(new_task 0 ''t1'' example_data) \<lparr> status := Processing, started_at := Some 3 \<rparr>,
        new_task 1 ''t2'' example_data] \<rparr>"

definition example_server :: server where
  "example_server =
     \<lparr> queue = new_TaskQueue (Some 3) None [], sessionStore = [],
       defaultProjectPath = Some ''/srv/project'', defaultModel = None,
       webhook_defaultUrl = None \<rparr>"

definition example_request :: claude_request where
  "example_request =
     \<lparr> rq_prompt = ''a'', rq_project_path = None, rq_model = None,
       rq_session_id = Some ''S'', rq_system_prompt = None, rq_agent = None,
       rq_mcp_config = None, rq_webhook_url = None, rq_priority = None \<rparr>"

text \<open>
  Scenario S6 of the specification: a session \<open>S\<close>, three asynchronous requests that name
  it, and three executor runs that succeed with cost 0.01 each (concurrency 3).
\<close>

definition three_paid_tasks :: "(nat \<times> server_event) list" where
  "three_paid_tasks =
     [(0, CreateSession ''S'' \<lparr> sd_model = None, sd_project_path = Some ''/srv/project'',
                                 sd_metadata = None \<rparr>),
      (1, Queue (Start 0)),
      (2, PostClaudeAsync ''t1'' ''n1'' example_request),
      (3, PostClaudeAsync ''t2'' ''n2'' example_request),
      (4, PostClaudeAsync ''t3'' ''n3'' example_request),
      (5, Queue (ProcessQueue 1)), (6, Queue (NextPendingResolved 1)),
      (7, Queue (MarkProcessingResolved 1)),
      (8, Queue (ProcessQueue 2)), (9, Queue (NextPendingResolved 2)),
      (10, Queue (MarkProcessingResolved 2)),
      (11, Queue (ProcessQueue 3)), (12, Queue (NextPendingResolved 3)),
      (13, Queue (MarkProcessingResolved 3)),
      (20, Queue (ExecutorResolved ''t1'' (Exec_success (Some ''r1'') (Some (1 / 100))))),
      (21, Queue (ExecutorResolved ''t2'' (Exec_success (Some ''r2'') (Some (1 / 100))))),
      (22, Queue (ExecutorResolved ''t3'' (Exec_success (Some ''r3'') (Some (1 / 100)))))]"

text \<open>The server whose queue is \<open>started_queue\<close>.\<close>

definition started_server :: server where
  "started_server = example_server \<lparr> queue := started_queue \<rparr>"

definition example_session :: session_data where
  "example_session =
     \<lparr> sd_model = None, sd_project_path = Some ''/srv/project'', sd_metadata = None \<rparr>"

text \<open>
  Scenario S5 of the specification: an endpoint that answers 503 twice, then 200. Axios
  rejects the two 503 responses.
\<close>

definition http_503_twice :: "nat \<Rightarrow> axios_outcome" where
  "http_503_twice k =
     (if k < 3 then Rejected ''Request failed with status code 503'' else Resolved 200)"

definition example_notifier :: notifier where
  "example_notifier =
     new_WebhookNotifier (Some True) (Some ''http://hooks.example/cb'') None None"



section \<open>Properties of the task store\<close>

lemmas store_defs = create_def new_task_def or_string_def or_int_def default_model_def
  get_def update_def merge_def no_patch_def compareTasks_def sortBy_def slice_limit_def
  list_tasks_def getNextPending_def markProcessing_def duration_since_def markCompleted_def
  markFailed_def cancel_def

lemmas queue_defs = new_TaskQueue_def or_nat_def addTask_def processQueue_enter_def
  processQueue_next_def executeTask_begin_def processQueue_marked_def
  processQueue_markError_def executeTask_resolved_def executeTask_rejected_def
  executeTask_timeout_def cancelTask_def restorePendingTasks_def start_def stop_begin_def

lemmas session_defs = session_create_def session_get_def session_merge_def session_update_def
  session_delete_def session_cleanup_def or_zero_def incrementMessages_def addCost_def

lemmas server_defs = or_else_def entry_def post_claude_async_def

lemma findIndex_Some:
  "findIndex P xs = Some i \<Longrightarrow> i < length xs \<and> P (xs ! i) \<and> find P xs = Some (xs ! i)"
  by (induction xs arbitrary: i) (auto split: if_splits)

lemma findIndex_None: "findIndex P xs = None \<Longrightarrow> find P xs = None"
  by (induction xs) (auto split: if_splits)

lemma find_Some_findIndex:
  "find P xs = Some x \<Longrightarrow> \<exists>i. findIndex P xs = Some i \<and> xs ! i = x"
  by (induction xs) (auto split: if_splits)

lemma merge_task_id [simp]: "task_id (merge now t u) = task_id t"
  by (simp add: merge_def)

lemma find_list_update_first:
  "findIndex P xs = Some i \<Longrightarrow> P y \<Longrightarrow> find P (xs[i := y]) = Some y"
  by (induction xs arbitrary: i) (auto split: if_splits)

lemma update_found:
  assumes "get tasks taskId = Some t"
  shows "fst (update now tasks taskId u) = Some (merge now t u)"
    and "get (snd (update now tasks taskId u)) taskId = Some (merge now t u)"
proof -
  from assms obtain i
    where i: "findIndex (\<lambda>t. task_id t = taskId) tasks = Some i" "tasks ! i = t"
    unfolding get_def using find_Some_findIndex by fastforce
  from assms have tid: "task_id t = taskId"
    unfolding get_def by (auto simp: find_Some_iff)
  show "fst (update now tasks taskId u) = Some (merge now t u)"
    using i by (simp add: update_def Let_def)
  show "get (snd (update now tasks taskId u)) taskId = Some (merge now t u)"
    using i tid find_list_update_first [OF i(1), of "merge now t u"]
    by (simp add: update_def Let_def get_def)
qed


section \<open>Cancelling twice\<close>



section \<open>Crash recovery\<close>

lemma findIndex_update_map:
  "distinct (map f xs) \<Longrightarrow>
   (case findIndex (\<lambda>x. f x = k) xs of None \<Rightarrow> xs | Some i \<Rightarrow> xs[i := g (xs ! i)])
     = map (\<lambda>x. if f x = k then g x else x) xs"
proof (induction xs)
  case Nil
  then show ?case by simp
next
  case (Cons x xs)
  show ?case
  proof (cases "f x = k")
    case True
    with Cons.prems have "k \<notin> f ` set xs" by auto
    then have "\<And>y. y \<in> set xs \<Longrightarrow> f y \<noteq> k" by blast
    then have "map (\<lambda>x. if f x = k then g x else x) xs = xs"
      by (intro map_idI) simp
    with True show ?thesis by simp
  next
    case False
    with Cons show ?thesis by (cases "findIndex (\<lambda>x. f x = k) xs") auto
  qed
qed

lemma update_map:
  assumes "distinct (map task_id ts)"
  shows "snd (update now ts tid u) = map (\<lambda>t. if task_id t = tid then merge now t u else t) ts"
  using findIndex_update_map [OF assms, where k = tid and g = "\<lambda>t. merge now t u"]
  by (simp add: update_def Let_def split: option.splits)

lemma merge_idem: "merge now (merge now t u) u = merge now t u"
  by (simp add: merge_def split: option.splits)

lemma foldl_update_map:
  "distinct (map task_id ts) \<Longrightarrow>
   foldl (\<lambda>ts t. snd (update now ts (task_id t) u)) ts ps
     = map (\<lambda>t. if task_id t \<in> task_id ` set ps then merge now t u else t) ts"
proof (induction ps arbitrary: ts)
  case Nil
  then show ?case by simp
next
  case (Cons p ps)
  let ?h = "\<lambda>t. if task_id t = task_id p then merge now t u else t"
  have 1: "snd (update now ts (task_id p) u) = map ?h ts"
    using Cons.prems by (rule update_map)
  have 2: "map task_id (map ?h ts) = map task_id ts" by (simp add: comp_def)
  have 3: "distinct (map task_id (map ?h ts))" using Cons.prems unfolding 2 .
  show ?case
    unfolding foldl_Cons 1 Cons.IH [OF 3]
    by (auto simp: merge_idem)
qed

lemma set_insertBy: "set (insertBy cmp x xs) = insert x (set xs)"
  by (induction xs) auto

lemma set_sortBy: "set (sortBy cmp xs) = set xs"
  by (induction xs) (simp_all add: sortBy_def set_insertBy)

lemma restorePendingTasks_map:
  assumes "distinct (map task_id tasks)"
  shows "restorePendingTasks now tasks
     = map (\<lambda>t. if status t = Processing then t \<lparr> status := Pending, updated_at := now \<rparr> else t)
         tasks"
proof -
  let ?u = "no_patch \<lparr> p_status := Some Pending \<rparr>"
  have m: "\<And>t. merge now t ?u = t \<lparr> status := Pending, updated_at := now \<rparr>"
    by (simp add: merge_def no_patch_def)
  have s: "set (list_tasks (Some Processing) None tasks)
             = {t \<in> set tasks. status t = Processing}"
    by (simp add: list_tasks_def slice_limit_def set_sortBy)
  have inj: "inj_on task_id (set tasks)" using assms by (simp add: distinct_map)
  have "restorePendingTasks now tasks
      = map (\<lambda>t. if task_id t \<in> task_id ` {t \<in> set tasks. status t = Processing}
                  then merge now t ?u else t) tasks"
    unfolding restorePendingTasks_def foldl_update_map [OF assms] s ..
  also have "\<dots> = map (\<lambda>t. if status t = Processing then merge now t ?u else t) tasks"
  proof (rule map_cong [OF refl])
    fix t assume t: "t \<in> set tasks"
    have "task_id t \<in> task_id ` {t \<in> set tasks. status t = Processing}
            \<longleftrightarrow> status t = Processing"
      using t inj by (auto dest: inj_onD)
    then show "(if task_id t \<in> task_id ` {t \<in> set tasks. status t = Processing}
                  then merge now t ?u else t)
                = (if status t = Processing then merge now t ?u else t)"
      by simp
  qed
  finally show ?thesis by (simp add: m)
qed

text \<open>
  Claim C4. \<open>start\<close> on a queue that is not running, over a store whose task identifiers
  are distinct (what \<open>generateId\<close> provides): the queue runs, and every task that was
  processing is the same record with status pending and a new \<open>updated_at\<close>, every other
  task is untouched. So priorities, \<open>created_at\<close> and \<open>started_at\<close> are as they were, and
  no task of the store is processing when \<open>start\<close> is done.
\<close>

theorem start_resets_processing:
  assumes "\<not> running q" and "distinct (map task_id (taskStore q))"
  shows "running (start now n q) \<and>
         taskStore (start now n q)
           = map (\<lambda>t. if status t = Processing
                       then t \<lparr> status := Pending, updated_at := now \<rparr> else t)
               (taskStore q) \<and>
         map priority (taskStore (start now n q)) = map priority (taskStore q) \<and>
         map created_at (taskStore (start now n q)) = map created_at (taskStore q) \<and>
         map started_at (taskStore (start now n q)) = map started_at (taskStore q) \<and>
         filter (\<lambda>t. status t = Processing) (taskStore (start now n q)) = []"
proof -
  have ts: "taskStore (start now n q) = restorePendingTasks now (taskStore q)"
    using assms(1) by (simp add: start_def Let_def processQueue_enter_def)
  have r: "running (start now n q)"
    using assms(1) by (simp add: start_def Let_def processQueue_enter_def)
  show ?thesis
    unfolding ts restorePendingTasks_map [OF assms(2)] using r
    by (auto simp: comp_def filter_empty_conv intro!: map_cong)
qed

theorem start_resets_processing_witness:
  "\<not> running crashed_queue \<and> distinct (map task_id (taskStore crashed_queue)) \<and>
   map status (taskStore crashed_queue) = [Processing, Pending] \<and>
   map status (taskStore (start 9 0 crashed_queue)) = [Pending, Pending] \<and>
   map started_at (taskStore (start 9 0 crashed_queue)) = [Some 3, None] \<and>
   running (start 9 0 crashed_queue)"
proof -
  have h1: "\<not> running crashed_queue"
    by (simp add: crashed_queue_def example_queue_def new_TaskQueue_def)
  have h2: "distinct (map task_id (taskStore crashed_queue))"
    by (simp add: crashed_queue_def new_task_def)
  have h3: "map status (taskStore crashed_queue) = [Processing, Pending]"
    "map started_at (taskStore crashed_queue) = [Some 3, None]"
    by (simp_all add: crashed_queue_def new_task_def)
  show ?thesis
    using h1 h2 h3 start_resets_processing [OF h1 h2, of 9 0]
    by (simp add: crashed_queue_def new_task_def)
qed

section \<open>Results that arrive late\<close>

text \<open>
  Claim C1. The code at a failing input. The task of \<open>started_queue\<close> is processing.
  When its timeout timer fires it becomes failed, and the executor's result that arrives
  afterwards makes it completed; when it is cancelled instead it becomes cancelled, and
  an executor failure that arrives afterwards makes it failed. \<open>markCompleted\<close> and
  \<open>markFailed\<close> overwrite a terminal status, where \<open>cancel\<close> refuses it.
\<close>

theorem late_result_overwrites_terminal_status:
  "map status (taskStore started_queue) = [Processing] \<and>
   map status (taskStore (run [(300004, TimeoutFired ''t1'')] started_queue)) = [Failed] \<and>
   map status (taskStore (run [(300004, TimeoutFired ''t1''),
        (400000, ExecutorResolved ''t1'' (Exec_success (Some ''ok'') (Some 0.01)))]
      started_queue)) = [Completed] \<and>
   map status (taskStore (run [(10, CancelTask ''t1'')] started_queue)) = [Cancelled] \<and>
   map status (taskStore (run [(10, CancelTask ''t1''),
        (20, ExecutorResolved ''t1'' (Exec_failure (Some ''boom'')))] started_queue)) = [Failed]"
  by (simp add: started_queue_def example_queue_def example_data_def store_defs queue_defs
        Let_def)

section \<open>The size of the active set\<close>

text \<open>
  Claim C3. The code at two failing inputs, both with concurrency 1 and two pending
  tasks. In the first, two calls of \<open>processQueue\<close> have both passed the size test
  before either reserved a slot; the first call reserves and marks the first task; when
  \<open>getNextPending\<close> then resolves for the second call it yields the second task, which is
  not in the active set, and the call reserves a second slot: the test of the size and
  the reservation are separated by \<open>await this.taskStore.getNextPending()\<close>. In the
  second, the first task is cancelled while its \<open>markProcessing\<close> is awaited, which frees
  its slot; a second call of \<open>processQueue\<close> passes the size test; \<open>markProcessing\<close>
  resolves and \<open>executeTask\<close> puts the first task back into the active set without a
  test; then the second call reserves a slot for the second task.
\<close>

theorem active_set_exceeds_concurrency:
  "concurrency example_queue = 1 \<and>
   map fst (activeTasks (run
      [(0, Start 0), (1, AddTask ''t1'' example_data), (2, AddTask ''t2'' example_data),
       (3, ProcessQueue 1), (4, ProcessQueue 2), (5, NextPendingResolved 1),
       (6, MarkProcessingResolved 1), (7, NextPendingResolved 2)] example_queue))
     = [''t1'', ''t2''] \<and>
   map fst (activeTasks (run
      [(0, Start 0), (1, AddTask ''t1'' example_data), (2, AddTask ''t2'' example_data),
       (3, ProcessQueue 1), (4, NextPendingResolved 1), (5, CancelTask ''t1''),
       (6, ProcessQueue 2), (7, MarkProcessingResolved 1), (8, NextPendingResolved 2)]
      example_queue))
     = [''t1'', ''t2'']"
  by (simp add: example_queue_def example_data_def store_defs queue_defs Let_def)

section \<open>Stopping the queue\<close>

lemma stop_wait_drain:
  "(\<And>j. j < n \<Longrightarrow> 0 < sizeAt (k + j)) \<Longrightarrow> sizeAt (k + n) = 0
   \<Longrightarrow> stop_wait sizeAt k = Some (k + n)"
proof (induction n arbitrary: k)
  case 0
  then show ?case by (subst stop_wait.simps) simp
next
  case (Suc n)
  have "0 < sizeAt k" using Suc.prems(1) [of 0] by simp
  moreover have "stop_wait sizeAt (Suc k) = Some (Suc k + n)"
  proof (rule Suc.IH)
    fix j assume "j < n"
    then show "0 < sizeAt (Suc k + j)" using Suc.prems(1) [of "Suc j"] by simp
  next
    show "sizeAt (Suc k + n) = 0" using Suc.prems(2) by simp
  qed
  ultimately show ?case by (subst stop_wait.simps) simp
qed

lemma stop_wait_Some:
  assumes "stop_wait sizeAt k = Some r"
  shows "sizeAt r = 0 \<and> k \<le> r"
  by (rule stop_wait.raw_induct [where P = "\<lambda>f k r. f r = 0 \<and> k \<le> r", OF _ assms])
     (auto split: if_splits dest: Suc_leD)

lemma stop_wait_never:
  assumes "\<And>k. 0 < sizeAt k"
  shows "stop_wait sizeAt k = None"
proof (cases "stop_wait sizeAt k")
  case None
  then show ?thesis .
next
  case (Some r)
  then have "sizeAt r = 0" using stop_wait_Some by blast
  with assms [of r] show ?thesis by simp
qed

text \<open>
  Claim C5. The code at a failing input. With one task active for the first 15 seconds
  (150 tests of the loop), \<open>stop\<close> on a running queue returns after 150 sleeps of 100 ms,
  that is after 15000 ms and not at the 10000 ms deadline; with a task that stays active
  it does not return at all.
\<close>

theorem stop_waits_past_deadline:
  "stop (\<lambda>k. if k < 150 then 1 else 0) (example_queue \<lparr> running := True \<rparr>)
     = Some (example_queue \<lparr> running := False, pendingCheckInterval := False \<rparr>, 15000) \<and>
   stop (\<lambda>k. 1) (example_queue \<lparr> running := True \<rparr>) = None"
proof -
  have "stop_wait (\<lambda>k. if k < 150 then 1 else 0) 0 = Some (0 + 150)"
    by (rule stop_wait_drain) simp_all
  moreover have "stop_wait (\<lambda>k. 1) 0 = None"
    by (rule stop_wait_never) simp
  ultimately show ?thesis
    by (simp add: stop_def stop_begin_def example_queue_def new_TaskQueue_def)
qed

section \<open>Tasks and sessions\<close>

lemma list_update_map_same:
  "i < length xs \<Longrightarrow> f y = f (xs ! i) \<Longrightarrow> map f (xs[i := y]) = map f xs"
  by (simp add: map_update list_update_same_conv)

lemma update_session_ids:
  "p_session_id u = None \<Longrightarrow> map session_id (snd (update now ts tid u)) = map session_id ts"
  by (auto simp: update_def Let_def merge_def list_update_map_same split: option.splits
      dest: findIndex_Some)

lemma markProcessing_session_ids:
  "map session_id (snd (markProcessing now ts tid)) = map session_id ts"
  by (simp add: markProcessing_def update_session_ids no_patch_def)

lemma markCompleted_session_ids:
  "map session_id (snd (markCompleted now ts tid r c)) = map session_id ts"
  by (simp add: markCompleted_def update_session_ids no_patch_def split: option.splits)

lemma markFailed_session_ids:
  "map session_id (snd (markFailed now ts tid e)) = map session_id ts"
  by (simp add: markFailed_def update_session_ids no_patch_def split: option.splits)

lemma cancel_session_ids:
  "map session_id (snd (cancel now ts tid)) = map session_id ts"
  by (simp add: cancel_def update_session_ids no_patch_def split: option.splits)

lemma foldl_update_session_ids:
  "p_session_id u = None \<Longrightarrow>
   map session_id (foldl (\<lambda>ts t. snd (update now ts (task_id t) u)) ts ps) = map session_id ts"
  by (induction ps arbitrary: ts) (simp_all add: update_session_ids)

lemma restore_session_ids:
  "map session_id (restorePendingTasks now ts) = map session_id ts"
  by (simp add: restorePendingTasks_def foldl_update_session_ids no_patch_def)

lemma step_session_ids:
  "map session_id (taskStore (step now ev q))
     = map session_id (taskStore q) @ (case ev of AddTask tid d \<Rightarrow> [None] | _ \<Rightarrow> [])"
proof (cases ev)
  case (AddTask tid d)
  then show ?thesis by (simp add: addTask_def create_def new_task_def Let_def)
next
  case (ProcessQueue n)
  then show ?thesis by (simp add: processQueue_enter_def)
next
  case (NextPendingResolved n)
  then show ?thesis
    by (simp add: processQueue_next_def split: option.splits pq_wait.splits)
next
  case (MarkProcessingResolved n)
  then show ?thesis
    by (simp add: processQueue_marked_def executeTask_begin_def markProcessing_session_ids
        split: option.splits pq_wait.splits)
next
  case (MarkProcessingRejected n)
  then show ?thesis
    by (simp add: processQueue_markError_def split: option.splits pq_wait.splits)
next
  case (ExecutorResolved tid res)
  then show ?thesis
    by (simp add: executeTask_resolved_def markCompleted_session_ids markFailed_session_ids
        split: exec_result.splits)
next
  case (ExecutorRejected tid msg)
  then show ?thesis by (simp add: executeTask_rejected_def markFailed_session_ids)
next
  case (TimeoutFired tid)
  then show ?thesis by (simp add: executeTask_timeout_def markFailed_session_ids)
next
  case (CancelTask tid)
  then show ?thesis
    by (simp add: cancelTask_def Let_def cancel_session_ids split: option.splits)
next
  case (Start n)
  then show ?thesis
    by (simp add: start_def Let_def processQueue_enter_def restore_session_ids)
next
  case Stop
  then show ?thesis by (simp add: stop_begin_def)
qed

lemma run_session_ids:
  "\<exists>k. map session_id (taskStore (run evs q)) = map session_id (taskStore q) @ replicate k None"
proof (induction evs arbitrary: q)
  case Nil
  show ?case by (rule exI [of _ 0]) simp
next
  case (Cons e evs)
  obtain now ev where e: "e = (now, ev)" by (cases e)
  from Cons.IH [of "step now ev q"] obtain k where
    k: "map session_id (taskStore (run evs (step now ev q)))
          = map session_id (taskStore (step now ev q)) @ replicate k None" by blast
  have k': "map session_id (taskStore (run (e # evs) q))
          = map session_id (taskStore q) @
            ((case ev of AddTask a d \<Rightarrow> [None] | _ \<Rightarrow> []) @ replicate k None)"
    unfolding e run.simps k step_session_ids by simp
  have "(case ev of AddTask a d \<Rightarrow> [None] | _ \<Rightarrow> []) @ replicate k None
          = replicate (case ev of AddTask a d \<Rightarrow> Suc k | _ \<Rightarrow> k) None"
    by (cases ev) simp_all
  with k' show ?case by metis
qed

lemma map_of_entry_session_id:
  "map_of (entry ''webhook_url'' a @ entry ''session_id'' s @ entry ''system_prompt'' b @
           entry ''agent'' c @ entry ''mcp_config'' d) ''session_id'' = s"
  by (simp add: entry_def split: option.splits)

text \<open>
  Claim C10. \<open>create\<close> gives the new task \<open>session_id\<close> null whatever the caller
  supplies (also a \<open>session_id\<close> key), and copies the metadata. The asynchronous branch of
  POST /api/claude appends one task whose \<open>session_id\<close> is null and whose metadata
  carries the session under the key \<open>session_id\<close>: the one of the request, or the one
  created for it. No event of the queue changes the \<open>session_id\<close> of a stored task: a
  step leaves the list of the tasks' \<open>session_id\<close>s as it is, but for the null that
  \<open>addTask\<close> appends, and so does every schedule.
\<close>

theorem task_session_id_stays_null:
  "session_id (fst (create now tid tasks taskData)) = None \<and>
   metadata (fst (create now tid tasks taskData))
     = (case td_metadata taskData of None \<Rightarrow> [] | Some m \<Rightarrow> m) \<and>
   (\<exists>t. taskStore (queue (post_claude_async now tid new_sid req srv))
           = taskStore (queue srv) @ [t] \<and>
        session_id t = None \<and>
        map_of (metadata t) ''session_id''
          = (if or_else (rq_session_id req) None = None then Some new_sid
             else rq_session_id req)) \<and>
   (\<forall>ev. map session_id (taskStore (step now ev q))
          = map session_id (taskStore q) @ (case ev of AddTask a d \<Rightarrow> [None] | _ \<Rightarrow> [])) \<and>
   (\<exists>k. map session_id (taskStore (run evs q))
          = map session_id (taskStore q) @ replicate k None)"
proof -
  have 1: "session_id (fst (create now tid tasks taskData)) = None"
    "metadata (fst (create now tid tasks taskData))
     = (case td_metadata taskData of None \<Rightarrow> [] | Some m \<Rightarrow> m)"
    by (simp_all add: create_def new_task_def Let_def)
  have 2: "\<exists>t. taskStore (queue (post_claude_async now tid new_sid req srv))
           = taskStore (queue srv) @ [t] \<and>
        session_id t = None \<and>
        map_of (metadata t) ''session_id''
          = (if or_else (rq_session_id req) None = None then Some new_sid
             else rq_session_id req)"
    by (simp add: post_claude_async_def Let_def addTask_def create_def new_task_def
        map_of_entry_session_id del: map_of_append)
  show ?thesis using 1 2 step_session_ids run_session_ids by blast
qed

section \<open>Session cost accrual\<close>

text \<open>
  Claim C2, as stated, fails at scenario S6: the three tasks end completed with cost
  0.01 each and carry the session in their metadata, and the session still has
  \<open>total_cost_usd = 0\<close> and \<open>messages_count = 0\<close>, not 0.03 and 3.
\<close>

theorem session_cost_not_accrued:
  "map (\<lambda>t. (task_id t, status t, cost_usd t, map_of (metadata t) ''session_id''))
       (taskStore (queue (server_run three_paid_tasks example_server)))
     = [(''t1'', Completed, 1 / 100, Some ''S''), (''t2'', Completed, 1 / 100, Some ''S''),
        (''t3'', Completed, 1 / 100, Some ''S'')] \<and>
   map (\<lambda>s. (s_id s, total_cost_usd s, messages_count s))
       (sessionStore (server_run three_paid_tasks example_server))
     = [(''S'', 0, 0)]"
  by (simp add: three_paid_tasks_def example_server_def example_request_def store_defs queue_defs
      session_defs server_defs Let_def)

text \<open>
  Claim C2, amended. When the executor of a task in execution resolves with success and
  the store holds the task, the task is afterwards completed, with the result, the cost
  (0 when the executor gave none) and \<open>completed_at\<close> set; and no event of the queue,
  this one included, changes the session store.
\<close>

theorem executor_success_marks_completed:
  assumes "taskId \<in> set (executions (queue srv))"
    and "get (taskStore (queue srv)) taskId = Some t"
  shows "(\<exists>t'. get (taskStore (queue (server_step now
              (Queue (ExecutorResolved taskId (Exec_success r c))) srv))) taskId = Some t' \<and>
            status t' = Completed \<and> result t' = r \<and>
            cost_usd t' = (case c of None \<Rightarrow> 0 | Some x \<Rightarrow> x) \<and>
            completed_at t' = Some now) \<and>
         sessionStore (server_step now (Queue ev) srv) = sessionStore srv"
proof -
  let ?u = "no_patch \<lparr> p_status := Some Completed, p_completed_at := Some (Some now),
               p_result := Some r,
               p_cost_usd := Some (case c of None \<Rightarrow> 0 | Some c \<Rightarrow> c),
               p_duration_ms := Some (duration_since now t) \<rparr>"
  have m: "markCompleted now (taskStore (queue srv)) taskId r c
             = update now (taskStore (queue srv)) taskId ?u"
    using assms(2) by (simp add: markCompleted_def)
  have s: "taskStore (queue (server_step now
              (Queue (ExecutorResolved taskId (Exec_success r c))) srv))
           = snd (update now (taskStore (queue srv)) taskId ?u)"
    using assms(1) m by (simp add: executeTask_resolved_def)
  have g: "get (snd (update now (taskStore (queue srv)) taskId ?u)) taskId
             = Some (merge now t ?u)"
    by (rule update_found(2) [OF assms(2)])
  have f: "status (merge now t ?u) = Completed" "result (merge now t ?u) = r"
    "cost_usd (merge now t ?u) = (case c of None \<Rightarrow> 0 | Some x \<Rightarrow> x)"
    "completed_at (merge now t ?u) = Some now"
    by (simp_all add: merge_def no_patch_def)
  show ?thesis using s g f by simp
qed

theorem executor_success_marks_completed_witness:
  "''t1'' \<in> set (executions (queue started_server)) \<and>
   (\<exists>t. get (taskStore (queue started_server)) ''t1'' = Some t \<and> status t = Processing) \<and>
   (\<exists>t'. get (taskStore (queue (server_step 20
              (Queue (ExecutorResolved ''t1'' (Exec_success (Some ''ok'') (Some (1 / 100)))))
              started_server))) ''t1'' = Some t' \<and>
      status t' = Completed \<and> result t' = Some ''ok'' \<and> cost_usd t' = 1 / 100 \<and>
      completed_at t' = Some 20)"
proof -
  have h1: "''t1'' \<in> set (executions (queue started_server))"
    by (simp add: started_server_def started_queue_def example_queue_def example_data_def
          store_defs queue_defs Let_def)
  have h2: "\<exists>t. get (taskStore (queue started_server)) ''t1'' = Some t \<and> status t = Processing"
    by (simp add: started_server_def started_queue_def example_queue_def example_data_def
          store_defs queue_defs Let_def)
  then obtain t where t: "get (taskStore (queue started_server)) ''t1'' = Some t" by blast
  show ?thesis
    using h1 h2
      executor_success_marks_completed [OF h1 t, of 20 "Some ''ok''" "Some (1 / 100)"]
    by simp
qed

section \<open>Session counters\<close>

lemma find_update_other:
  "i < length xs \<Longrightarrow> \<not> P (xs ! i) \<Longrightarrow> \<not> P y \<Longrightarrow> find P (xs[i := y]) = find P xs"
  by (induction xs arbitrary: i) (auto split: nat.splits)

lemma find_remove_other:
  "i < length xs \<Longrightarrow> \<not> P (xs ! i) \<Longrightarrow> find P (take i xs @ drop (Suc i) xs) = find P xs"
  by (induction xs arbitrary: i) (auto split: nat.splits simp: less_Suc_eq_0_disj)

lemma find_append_Some: "find P xs = Some x \<Longrightarrow> find P (xs @ ys) = Some x"
  by (induction xs) (auto split: if_splits)

text \<open>Changing the first record with key \<open>x\<close>, seen from the key \<open>k\<close>.\<close>

lemma find_modify:
  assumes "find (\<lambda>s. f s = k) xs = Some s"
    and "\<And>y. f (g y) = f y"
  shows "find (\<lambda>s. f s = k)
           (case findIndex (\<lambda>s. f s = x) xs of None \<Rightarrow> xs | Some i \<Rightarrow> xs[i := g (xs ! i)])
         = Some (if x = k then g s else s)"
proof (cases "findIndex (\<lambda>s. f s = x) xs")
  case None
  then have "find (\<lambda>s. f s = x) xs = None" by (rule findIndex_None)
  with assms(1) have "x \<noteq> k" by auto
  with None assms(1) show ?thesis by simp
next
  case (Some i)
  note i = findIndex_Some [OF Some]
  show ?thesis
  proof (cases "x = k")
    case True
    with i assms(1) have "xs ! i = s" by simp
    moreover have "find (\<lambda>s. f s = k) (xs[i := g (xs ! i)]) = Some (g (xs ! i))"
      using find_list_update_first [OF Some, of "g (xs ! i)"] i assms(2) True by simp
    ultimately show ?thesis using Some True by simp
  next
    case False
    then have "find (\<lambda>s. f s = k) (xs[i := g (xs ! i)]) = find (\<lambda>s. f s = k) xs"
      using i assms(2) by (intro find_update_other) auto
    with Some False assms(1) show ?thesis by simp
  qed
qed

lemma session_update_snd:
  "snd (session_update now ss a u)
     = (case findIndex (\<lambda>s. s_id s = a) ss of None \<Rightarrow> ss
        | Some i \<Rightarrow> ss[i := session_merge now (ss ! i) u])"
  by (simp add: session_update_def Let_def split: option.split)

lemma incrementMessages_snd:
  "snd (incrementMessages now ss a)
     = (case findIndex (\<lambda>s. s_id s = a) ss of None \<Rightarrow> ss
        | Some i \<Rightarrow> ss[i := (ss ! i) \<lparr> messages_count := or_zero (messages_count (ss ! i)) + 1,
                                        s_updated_at := now \<rparr>])"
  by (simp add: incrementMessages_def Let_def split: option.split)

lemma addCost_snd:
  "snd (addCost now ss a c)
     = (case findIndex (\<lambda>s. s_id s = a) ss of None \<Rightarrow> ss
        | Some i \<Rightarrow> ss[i := (ss ! i) \<lparr> total_cost_usd := or_zero (total_cost_usd (ss ! i)) + c,
                                        s_updated_at := now \<rparr>])"
  by (simp add: addCost_def Let_def split: option.split)

lemma session_apply_keeps:
  assumes "session_get ss sid = Some s" and "keeps sid x"
  shows "\<exists>s'. session_get (session_apply now x ss) sid = Some s' \<and>
              messages_count s \<le> messages_count s'"
proof (cases x)
  case (S_create a d)
  then show ?thesis
    using assms(1) by (simp add: session_create_def session_get_def Let_def find_append_Some)
next
  case (S_update a u)
  have mid: "\<And>y. s_id (session_merge now y u) = s_id y"
    by (simp add: session_merge_def)
  have "session_get (snd (session_update now ss a u)) sid
          = Some (if a = sid then session_merge now s u else s)"
    unfolding session_get_def session_update_snd
    by (rule find_modify [where g = "\<lambda>s. session_merge now s u",
          OF assms(1) [unfolded session_get_def] mid])
  moreover have "sp_messages_count u = None
      \<Longrightarrow> messages_count (session_merge now s u) = messages_count s"
    by (simp add: session_merge_def)
  ultimately show ?thesis using S_update assms(2) by auto
next
  case (S_delete a)
  with assms(2) have ne: "a \<noteq> sid" by simp
  show ?thesis
  proof (cases "findIndex (\<lambda>s. s_id s = a) ss")
    case None
    then show ?thesis using S_delete assms(1) by (simp add: session_delete_def)
  next
    case (Some i)
    note i = findIndex_Some [OF Some]
    have "find (\<lambda>s. s_id s = sid) (take i ss @ drop (Suc i) ss) = find (\<lambda>s. s_id s = sid) ss"
      using i ne by (intro find_remove_other) auto
    then show ?thesis
      using S_delete Some assms(1) by (simp add: session_delete_def session_get_def)
  qed
next
  case (S_cleanup c)
  with assms(2) show ?thesis by simp
next
  case (S_incrementMessages a)
  have "session_get (snd (incrementMessages now ss a)) sid
          = Some (if a = sid then s \<lparr> messages_count := or_zero (messages_count s) + 1,
                                      s_updated_at := now \<rparr> else s)"
    unfolding session_get_def incrementMessages_snd
    by (rule find_modify [where g = "\<lambda>s. s \<lparr> messages_count := or_zero (messages_count s) + 1,
                                              s_updated_at := now \<rparr>",
          OF assms(1) [unfolded session_get_def]]) simp
  then show ?thesis using S_incrementMessages by (auto simp: or_zero_def)
next
  case (S_addCost a c)
  have "session_get (snd (addCost now ss a c)) sid
          = Some (if a = sid then s \<lparr> total_cost_usd := or_zero (total_cost_usd s) + c,
                                      s_updated_at := now \<rparr> else s)"
    unfolding session_get_def addCost_snd
    by (rule find_modify [where g = "\<lambda>s. s \<lparr> total_cost_usd := or_zero (total_cost_usd s) + c,
                                              s_updated_at := now \<rparr>",
          OF assms(1) [unfolded session_get_def]]) simp
  then show ?thesis using S_addCost by auto
qed

lemma session_run_keeps:
  "session_get ss sid = Some s \<Longrightarrow> list_all (keeps sid) (map snd xs) \<Longrightarrow>
   \<exists>s'. session_get (session_run xs ss) sid = Some s' \<and> messages_count s \<le> messages_count s'"
proof (induction xs arbitrary: ss s)
  case Nil
  then show ?case by simp
next
  case (Cons x xs)
  obtain now y where x: "x = (now, y)" by (cases x)
  from Cons.prems x obtain s1 where
    s1: "session_get (session_apply now y ss) sid = Some s1" "messages_count s \<le> messages_count s1"
    using session_apply_keeps [of ss sid s y now] by auto
  from Cons.IH [OF s1(1)] Cons.prems(2) obtain s' where
    "session_get (session_run xs (session_apply now y ss)) sid = Some s'"
    "messages_count s1 \<le> messages_count s'" by auto
  with s1(2) x show ?case by auto
qed

lemma session_apply_cost:
  assumes "\<forall>s\<in>set ss. 0 \<le> total_cost_usd s" and "cost_ok x"
  shows "\<forall>s\<in>set (session_apply now x ss). 0 \<le> total_cost_usd s"
proof (cases x)
  case (S_create a d)
  then show ?thesis using assms by (auto simp: session_create_def Let_def)
next
  case (S_update a u)
  then show ?thesis using assms
    by (auto simp: session_update_def Let_def session_merge_def
        split: option.splits dest!: set_update_subset_insert [THEN subsetD] findIndex_Some)
next
  case (S_delete a)
  then show ?thesis using assms
    by (auto simp: session_delete_def split: option.splits dest: in_set_takeD in_set_dropD)
next
  case (S_cleanup c)
  then show ?thesis using assms by (auto simp: session_cleanup_def)
next
  case (S_incrementMessages a)
  then show ?thesis using assms
    by (auto simp: incrementMessages_def Let_def
        split: option.splits dest!: set_update_subset_insert [THEN subsetD] findIndex_Some)
next
  case (S_addCost a c)
  then show ?thesis using assms
    by (auto simp: addCost_def Let_def or_zero_def
        split: option.splits dest!: set_update_subset_insert [THEN subsetD] findIndex_Some)
qed

lemma session_run_cost:
  "\<forall>s\<in>set ss. 0 \<le> total_cost_usd s \<Longrightarrow> list_all cost_ok (map snd xs) \<Longrightarrow>
   \<forall>s\<in>set (session_run xs ss). 0 \<le> total_cost_usd s"
proof (induction xs arbitrary: ss)
  case Nil
  then show ?case by simp
next
  case (Cons x xs)
  obtain now y where x: "x = (now, y)" by (cases x)
  have "\<forall>s\<in>set (session_apply now y ss). 0 \<le> total_cost_usd s"
    using Cons.prems x by (intro session_apply_cost) auto
  from Cons.IH [OF this] Cons.prems(2) x show ?case by simp
qed

text \<open>
  Claim C9, amended. Over every sequence of calls on the session store: when no
  \<open>addCost\<close> has a negative delta and no \<open>update\<close> sets a negative \<open>total_cost_usd\<close>,
  costs that are non-negative stay so; and for a session that \<open>get\<close> finds, when the
  sequence neither removes it nor updates it with a \<open>messages_count\<close> key, \<open>get\<close> still
  finds it afterwards and its \<open>messages_count\<close> has not decreased, whatever its status.
\<close>

theorem session_counters_invariant:
  "(list_all (\<lambda>s. 0 \<le> total_cost_usd s) ss \<longrightarrow> list_all cost_ok (map snd xs) \<longrightarrow>
      list_all (\<lambda>s. 0 \<le> total_cost_usd s) (session_run xs ss)) \<and>
   (session_get ss sid = Some s \<longrightarrow> list_all (keeps sid) (map snd xs) \<longrightarrow>
      (\<exists>s'. session_get (session_run xs ss) sid = Some s' \<and>
            messages_count s \<le> messages_count s'))"
  using session_run_cost [of ss xs] session_run_keeps [of ss sid s xs]
  by (auto simp: list_all_iff)

text \<open>
  Claim C9, as stated, fails: \<open>addCost\<close> accepts a negative delta and then leaves a
  negative \<open>total_cost_usd\<close>; and \<open>update\<close> with a \<open>messages_count\<close> key lowers the count
  of an active session.
\<close>

theorem addCost_negative_delta:
  "map total_cost_usd (session_run [(0::nat, S_create ''S'' example_session), (1, S_addCost ''S'' (- 1))] [])
     = [- 1] \<and>
   map (\<lambda>s. (s_status s, messages_count s))
     (session_run [(0::nat, S_create ''S'' example_session), (1, S_incrementMessages ''S'')] [])
     = [(Active, 1)] \<and>
   map (\<lambda>s. (s_status s, messages_count s))
     (session_run [(0::nat, S_create ''S'' example_session), (1, S_incrementMessages ''S''),
                   (2, S_update ''S'' (no_session_patch \<lparr> sp_messages_count := Some 0 \<rparr>))] [])
     = [(Active, 0)]"
  by (simp add: session_defs example_session_def no_session_patch_def Let_def default_model_def or_string_def)

theorem session_counters_invariant_witness:
  "list_all (\<lambda>s. 0 \<le> total_cost_usd s) [] \<and>
   list_all cost_ok (map snd [(0::nat, S_create ''S'' example_session), (1, S_addCost ''S'' (1 / 100)), (2, S_incrementMessages ''S'')]) \<and>
   list_all (\<lambda>s. 0 \<le> total_cost_usd s)
     (session_run [(0::nat, S_create ''S'' example_session), (1, S_addCost ''S'' (1 / 100)), (2, S_incrementMessages ''S'')] []) \<and>
   (\<exists>s. session_get (session_run [(0::nat, S_create ''S'' example_session)] []) ''S'' = Some s \<and> messages_count s = 0) \<and>
   list_all (keeps ''S'') (map snd [(1::nat, S_addCost ''S'' (1 / 100)), (2, S_incrementMessages ''S'')]) \<and>
   (\<exists>s'. session_get (session_run [(1::nat, S_addCost ''S'' (1 / 100)), (2, S_incrementMessages ''S'')]
              (session_run [(0::nat, S_create ''S'' example_session)] [])) ''S'' = Some s' \<and>
         0 \<le> messages_count s')"
proof -
  let ?xs = "[(0::nat, S_create ''S'' example_session), (1, S_addCost ''S'' (1 / 100)), (2, S_incrementMessages ''S'')]"
  let ?ys = "[(1::nat, S_addCost ''S'' (1 / 100)), (2::nat, S_incrementMessages ''S'')]"
  let ?ss = "session_run [(0::nat, S_create ''S'' example_session)] []"
  have h1: "list_all (\<lambda>s. 0 \<le> total_cost_usd s) []" by simp
  have h2: "list_all cost_ok (map snd ?xs)" by simp
  have h3: "\<exists>s. session_get ?ss ''S'' = Some s \<and> messages_count s = 0"
    by (simp add: session_defs Let_def)
  then obtain s where s: "session_get ?ss ''S'' = Some s" "messages_count s = 0" by blast
  have h4: "list_all (keeps ''S'') (map snd ?ys)" by simp
  from session_counters_invariant [of "[]" ?xs "''S''" s] h1 h2
  have a: "list_all (\<lambda>s. 0 \<le> total_cost_usd s) (session_run ?xs [])" by blast
  from session_counters_invariant [of ?ss ?ys "''S''" s] s h4
  have b: "\<exists>s'. session_get (session_run ?ys ?ss) ''S'' = Some s' \<and> 0 \<le> messages_count s'"
    by auto
  show ?thesis using h1 h2 h3 h4 a b by blast
qed

section \<open>Webhook retries\<close>

lemma posts_append [simp]: "posts (xs @ ys) = posts xs @ posts ys"
  by (induction xs rule: posts.induct) auto

declare notify_loop.simps [simp del]

lemma loop_done:
  "maxR < a \<Longrightarrow> notify_loop post maxR a e tr = (Max_retries_exceeded maxR e, tr)"
  by (subst notify_loop.simps) simp

lemma loop_ok:
  "a \<le> maxR \<Longrightarrow> post a = Resolved st \<Longrightarrow> 200 \<le> st \<Longrightarrow> st < 300 \<Longrightarrow>
   notify_loop post maxR a e tr = (Delivered st a, tr @ [Post a])"
  by (subst notify_loop.simps) simp

lemma loop_bad_status:
  "a \<le> maxR \<Longrightarrow> post a = Resolved st \<Longrightarrow> \<not> (200 \<le> st \<and> st < 300) \<Longrightarrow>
   notify_loop post maxR a e tr
     = notify_loop post maxR (Suc a) (Some (Unexpected_status_code st)) (tr @ [Post a])"
  by (subst notify_loop.simps) auto

lemma loop_rejected_sleep:
  "a < maxR \<Longrightarrow> post a = Rejected msg \<Longrightarrow>
   notify_loop post maxR a e tr
     = notify_loop post maxR (Suc a) (Some (Error_message msg))
         (tr @ [Post a, Sleep (delay a)])"
  by (subst notify_loop.simps) simp

lemma loop_rejected_last:
  "post maxR = Rejected msg \<Longrightarrow>
   notify_loop post maxR maxR e tr
     = (Max_retries_exceeded maxR (Some (Error_message msg)), tr @ [Post maxR])"
  by (subst notify_loop.simps) (simp add: loop_done)

lemma loop_bad_status_last:
  "post maxR = Resolved st \<Longrightarrow> \<not> (200 \<le> st \<and> st < 300) \<Longrightarrow>
   notify_loop post maxR maxR e tr
     = (Max_retries_exceeded maxR (Some (Unexpected_status_code st)), tr @ [Post maxR])"
  by (simp add: loop_bad_status loop_done)

text \<open>The cases of the loop, as an induction rule.\<close>

lemma loop_induct [case_names finished ok bad_status bad_status_last rejected_sleep rejected_last]:
  assumes "\<And>a e tr. maxR < a \<Longrightarrow> P a e tr"
    and "\<And>a e tr st. a \<le> maxR \<Longrightarrow> post a = Resolved st \<Longrightarrow> 200 \<le> st \<Longrightarrow> st < 300
           \<Longrightarrow> P a e tr"
    and "\<And>a e tr st. a < maxR \<Longrightarrow> post a = Resolved st \<Longrightarrow> \<not> (200 \<le> st \<and> st < 300)
           \<Longrightarrow> P (Suc a) (Some (Unexpected_status_code st)) (tr @ [Post a]) \<Longrightarrow> P a e tr"
    and "\<And>e tr st. post maxR = Resolved st \<Longrightarrow> \<not> (200 \<le> st \<and> st < 300) \<Longrightarrow> P maxR e tr"
    and "\<And>a e tr msg. a < maxR \<Longrightarrow> post a = Rejected msg
           \<Longrightarrow> P (Suc a) (Some (Error_message msg)) (tr @ [Post a, Sleep (delay a)])
           \<Longrightarrow> P a e tr"
    and "\<And>e tr msg. post maxR = Rejected msg \<Longrightarrow> P maxR e tr"
  shows "P a e tr"
  using assms
proof (induction post maxR a e tr rule: notify_loop.induct)
  case (1 post maxR attempt lastError tr)
  show ?case
  proof (cases "attempt \<le> maxR")
    case False
    then show ?thesis using "1.prems"(1) by simp
  next
    case True
    show ?thesis
    proof (cases "post attempt")
      case (Resolved st)
      show ?thesis
      proof (cases "200 \<le> st \<and> st < 300")
        case ok: True
        then show ?thesis using "1.prems"(2) True Resolved by simp
      next
        case no: False
        show ?thesis
        proof (cases "attempt < maxR")
          case lt: True
          show ?thesis
            by (rule "1.prems"(3) [OF lt Resolved no])
               (rule "1.IH"(1) [OF True Resolved no "1.prems"])
        next
          case ge: False
          with True have "attempt = maxR" by simp
          then show ?thesis using "1.prems"(4) Resolved no by simp
        qed
      qed
    next
      case (Rejected msg)
      show ?thesis
      proof (cases "attempt < maxR")
        case lt: True
        show ?thesis
          by (rule "1.prems"(5) [OF lt Rejected])
             (rule "1.IH"(2) [OF True Rejected lt "1.prems"])
      next
        case ge: False
        with True have "attempt = maxR" by simp
        then show ?thesis using "1.prems"(6) Rejected by simp
      qed
    qed
  qed
qed

lemma attempts_made_simps [simp]:
  "attempts_made (Delivered st k) maxR = k"
  "attempts_made (Max_retries_exceeded m e) maxR = maxR"
  by (simp_all add: attempts_made_def)

lemma loop_attempts:
  "attempts_made (fst (notify_loop post maxR a e tr)) maxR \<le> maxR \<and>
   (a \<le> maxR \<longrightarrow> a \<le> attempts_made (fst (notify_loop post maxR a e tr)) maxR)"
proof (induction a e tr rule: loop_induct [where post = post and maxR = maxR])
  case (finished a e tr)
  have eq: "notify_loop post maxR a e tr = (Max_retries_exceeded maxR e, tr)"
    using finished.hyps by (intro loop_done) simp_all
  show ?case unfolding eq by simp
next
  case (ok a e tr st)
  have eq: "notify_loop post maxR a e tr = (Delivered st a, tr @ [Post a])"
    using ok.hyps by (intro loop_ok) simp_all
  show ?case unfolding eq using ok.hyps by simp
next
  case (bad_status a e tr st)
  have eq: "notify_loop post maxR a e tr
      = notify_loop post maxR (Suc a) (Some (Unexpected_status_code st)) (tr @ [Post a])"
    using bad_status.hyps by (intro loop_bad_status) simp_all
  show ?case unfolding eq using bad_status by simp
next
  case (bad_status_last e tr st)
  have eq: "notify_loop post maxR maxR e tr
      = (Max_retries_exceeded maxR (Some (Unexpected_status_code st)), tr @ [Post maxR])"
    using bad_status_last.hyps by (intro loop_bad_status_last) simp_all
  show ?case unfolding eq by simp
next
  case (rejected_sleep a e tr msg)
  have eq: "notify_loop post maxR a e tr
      = notify_loop post maxR (Suc a) (Some (Error_message msg))
          (tr @ [Post a, Sleep (delay a)])"
    using rejected_sleep.hyps by (intro loop_rejected_sleep) simp_all
  show ?case unfolding eq using rejected_sleep by simp
next
  case (rejected_last e tr msg)
  have eq: "notify_loop post maxR maxR e tr
      = (Max_retries_exceeded maxR (Some (Error_message msg)), tr @ [Post maxR])"
    using rejected_last.hyps by (intro loop_rejected_last) simp_all
  show ?case unfolding eq by simp
qed

lemma upt_from: "a \<le> n \<Longrightarrow> [a..<Suc n] = a # [Suc a..<Suc n]"
  by (simp add: upt_conv_Cons)

lemma loop_attempts_next:
  "a < maxR \<Longrightarrow> a < attempts_made (fst (notify_loop post maxR (Suc a) e tr)) maxR"
  using loop_attempts [where post = post and maxR = maxR and a = "Suc a" and e = e and tr = tr]
  by simp

lemma loop_posts:
  "posts (snd (notify_loop post maxR a e tr))
     = posts tr @ [a..<Suc (attempts_made (fst (notify_loop post maxR a e tr)) maxR)]"
proof (induction a e tr rule: loop_induct [where post = post and maxR = maxR])
  case (finished a e tr)
  have eq: "notify_loop post maxR a e tr = (Max_retries_exceeded maxR e, tr)"
    using finished.hyps by (intro loop_done) simp_all
  show ?case unfolding eq using finished.hyps by simp
next
  case (ok a e tr st)
  have eq: "notify_loop post maxR a e tr = (Delivered st a, tr @ [Post a])"
    using ok.hyps by (intro loop_ok) simp_all
  show ?case unfolding eq by simp
next
  case (bad_status a e tr st)
  have eq: "notify_loop post maxR a e tr
      = notify_loop post maxR (Suc a) (Some (Unexpected_status_code st)) (tr @ [Post a])"
    using bad_status.hyps by (intro loop_bad_status) simp_all
  let ?n = "attempts_made (fst (notify_loop post maxR (Suc a)
              (Some (Unexpected_status_code st)) (tr @ [Post a]))) maxR"
  have "a \<le> ?n" using loop_attempts_next [OF bad_status.hyps(1)] by (rule less_imp_le)
  then have "[a..<Suc ?n] = a # [Suc a..<Suc ?n]" by (rule upt_from)
  then show ?case unfolding eq bad_status.IH by simp
next
  case (bad_status_last e tr st)
  have eq: "notify_loop post maxR maxR e tr
      = (Max_retries_exceeded maxR (Some (Unexpected_status_code st)), tr @ [Post maxR])"
    using bad_status_last.hyps by (intro loop_bad_status_last) simp_all
  show ?case unfolding eq by simp
next
  case (rejected_sleep a e tr msg)
  have eq: "notify_loop post maxR a e tr
      = notify_loop post maxR (Suc a) (Some (Error_message msg))
          (tr @ [Post a, Sleep (delay a)])"
    using rejected_sleep.hyps by (intro loop_rejected_sleep) simp_all
  let ?n = "attempts_made (fst (notify_loop post maxR (Suc a)
              (Some (Error_message msg)) (tr @ [Post a, Sleep (delay a)]))) maxR"
  have "a \<le> ?n" using loop_attempts_next [OF rejected_sleep.hyps(1)] by (rule less_imp_le)
  then have "[a..<Suc ?n] = a # [Suc a..<Suc ?n]" by (rule upt_from)
  then show ?case unfolding eq rejected_sleep.IH by simp
next
  case (rejected_last e tr msg)
  have eq: "notify_loop post maxR maxR e tr
      = (Max_retries_exceeded maxR (Some (Error_message msg)), tr @ [Post maxR])"
    using rejected_last.hyps by (intro loop_rejected_last) simp_all
  show ?case unfolding eq by simp
qed

lemma loop_result:
  "(case fst (notify_loop post maxR a e tr) of
      Skipped r \<Rightarrow> False
    | Delivered st k \<Rightarrow> a \<le> k \<and> k \<le> maxR \<and> post k = Resolved st \<and> is_2xx (post k)
    | Max_retries_exceeded m e' \<Rightarrow>
        m = maxR \<and> e' = (if a \<le> maxR then Some (error_of (post maxR)) else e))"
proof (induction a e tr rule: loop_induct [where post = post and maxR = maxR])
  case (finished a e tr)
  have eq: "notify_loop post maxR a e tr = (Max_retries_exceeded maxR e, tr)"
    using finished.hyps by (intro loop_done) simp_all
  show ?case unfolding eq using finished.hyps by simp
next
  case (ok a e tr st)
  have eq: "notify_loop post maxR a e tr = (Delivered st a, tr @ [Post a])"
    using ok.hyps by (intro loop_ok) simp_all
  show ?case unfolding eq using ok.hyps by (simp add: is_2xx_def)
next
  case (bad_status a e tr st)
  have eq: "notify_loop post maxR a e tr
      = notify_loop post maxR (Suc a) (Some (Unexpected_status_code st)) (tr @ [Post a])"
    using bad_status.hyps by (intro loop_bad_status) simp_all
  show ?case unfolding eq using bad_status by (auto split: notify_result.splits)
next
  case (bad_status_last e tr st)
  have eq: "notify_loop post maxR maxR e tr
      = (Max_retries_exceeded maxR (Some (Unexpected_status_code st)), tr @ [Post maxR])"
    using bad_status_last.hyps by (intro loop_bad_status_last) simp_all
  show ?case unfolding eq using bad_status_last.hyps by (simp add: error_of_def)
next
  case (rejected_sleep a e tr msg)
  have eq: "notify_loop post maxR a e tr
      = notify_loop post maxR (Suc a) (Some (Error_message msg))
          (tr @ [Post a, Sleep (delay a)])"
    using rejected_sleep.hyps by (intro loop_rejected_sleep) simp_all
  show ?case unfolding eq using rejected_sleep by (auto split: notify_result.splits)
next
  case (rejected_last e tr msg)
  have eq: "notify_loop post maxR maxR e tr
      = (Max_retries_exceeded maxR (Some (Error_message msg)), tr @ [Post maxR])"
    using rejected_last.hyps by (intro loop_rejected_last) simp_all
  show ?case unfolding eq using rejected_last.hyps by (simp add: error_of_def)
qed

lemma loop_failures_before:
  "a \<le> j \<Longrightarrow> j < attempts_made (fst (notify_loop post maxR a e tr)) maxR \<Longrightarrow>
   \<not> is_2xx (post j)"
proof (induction a e tr rule: loop_induct [where post = post and maxR = maxR])
  case (finished a e tr)
  have eq: "notify_loop post maxR a e tr = (Max_retries_exceeded maxR e, tr)"
    using finished.hyps by (intro loop_done) simp_all
  show ?case using finished.prems finished.hyps unfolding eq by simp
next
  case (ok a e tr st)
  have eq: "notify_loop post maxR a e tr = (Delivered st a, tr @ [Post a])"
    using ok.hyps by (intro loop_ok) simp_all
  show ?case using ok.prems unfolding eq by simp
next
  case (bad_status a e tr st)
  have eq: "notify_loop post maxR a e tr
      = notify_loop post maxR (Suc a) (Some (Unexpected_status_code st)) (tr @ [Post a])"
    using bad_status.hyps by (intro loop_bad_status) simp_all
  show ?case
  proof (cases "j = a")
    case True
    then show ?thesis using bad_status.hyps by (auto simp: is_2xx_def)
  next
    case False
    then show ?thesis using bad_status.prems bad_status.IH unfolding eq by simp
  qed
next
  case (bad_status_last e tr st)
  have eq: "notify_loop post maxR maxR e tr
      = (Max_retries_exceeded maxR (Some (Unexpected_status_code st)), tr @ [Post maxR])"
    using bad_status_last.hyps by (intro loop_bad_status_last) simp_all
  show ?case using bad_status_last.prems unfolding eq by simp
next
  case (rejected_sleep a e tr msg)
  have eq: "notify_loop post maxR a e tr
      = notify_loop post maxR (Suc a) (Some (Error_message msg))
          (tr @ [Post a, Sleep (delay a)])"
    using rejected_sleep.hyps by (intro loop_rejected_sleep) simp_all
  show ?case
  proof (cases "j = a")
    case True
    then show ?thesis using rejected_sleep.hyps by (simp add: is_2xx_def)
  next
    case False
    then show ?thesis using rejected_sleep.prems rejected_sleep.IH unfolding eq by simp
  qed
next
  case (rejected_last e tr msg)
  have eq: "notify_loop post maxR maxR e tr
      = (Max_retries_exceeded maxR (Some (Error_message msg)), tr @ [Post maxR])"
    using rejected_last.hyps by (intro loop_rejected_last) simp_all
  show ?case using rejected_last.prems unfolding eq by simp
qed

lemma loop_all_failed:
  "fst (notify_loop post maxR a e tr) = Max_retries_exceeded m e' \<Longrightarrow> a \<le> j \<Longrightarrow> j \<le> maxR
   \<Longrightarrow> \<not> is_2xx (post j)"
proof (induction a e tr rule: loop_induct [where post = post and maxR = maxR])
  case (finished a e tr)
  have eq: "notify_loop post maxR a e tr = (Max_retries_exceeded maxR e, tr)"
    using finished.hyps by (intro loop_done) simp_all
  show ?case using finished.prems finished.hyps by simp
next
  case (ok a e tr st)
  have eq: "notify_loop post maxR a e tr = (Delivered st a, tr @ [Post a])"
    using ok.hyps by (intro loop_ok) simp_all
  show ?case using ok.prems unfolding eq by simp
next
  case (bad_status a e tr st)
  have eq: "notify_loop post maxR a e tr
      = notify_loop post maxR (Suc a) (Some (Unexpected_status_code st)) (tr @ [Post a])"
    using bad_status.hyps by (intro loop_bad_status) simp_all
  show ?case
  proof (cases "j = a")
    case True
    then show ?thesis using bad_status.hyps by (auto simp: is_2xx_def)
  next
    case False
    then show ?thesis using bad_status.prems bad_status.IH unfolding eq by simp
  qed
next
  case (bad_status_last e tr st)
  have eq: "notify_loop post maxR maxR e tr
      = (Max_retries_exceeded maxR (Some (Unexpected_status_code st)), tr @ [Post maxR])"
    using bad_status_last.hyps by (intro loop_bad_status_last) simp_all
  show ?case using bad_status_last.prems bad_status_last.hyps by (auto simp: is_2xx_def)
next
  case (rejected_sleep a e tr msg)
  have eq: "notify_loop post maxR a e tr
      = notify_loop post maxR (Suc a) (Some (Error_message msg))
          (tr @ [Post a, Sleep (delay a)])"
    using rejected_sleep.hyps by (intro loop_rejected_sleep) simp_all
  show ?case
  proof (cases "j = a")
    case True
    then show ?thesis using rejected_sleep.hyps by (simp add: is_2xx_def)
  next
    case False
    then show ?thesis using rejected_sleep.prems rejected_sleep.IH unfolding eq by simp
  qed
next
  case (rejected_last e tr msg)
  have eq: "notify_loop post maxR maxR e tr
      = (Max_retries_exceeded maxR (Some (Error_message msg)), tr @ [Post maxR])"
    using rejected_last.hyps by (intro loop_rejected_last) simp_all
  show ?case using rejected_last.prems rejected_last.hyps by (simp add: is_2xx_def)
qed

lemma rejects_non_2xx_at:
  assumes "rejects_non_2xx post maxR" and "1 \<le> a" and "a \<le> maxR" and "post a = Resolved st"
  shows "200 \<le> st \<and> st < 300"
proof -
  have "a \<in> set [1..<Suc maxR]" using assms(2,3) by auto
  with assms(1) have "case post a of Resolved st \<Rightarrow> 200 \<le> st \<and> st \<le> 299 | Rejected msg \<Rightarrow> True"
    unfolding rejects_non_2xx_def list_all_iff by blast
  with assms(4) show ?thesis by simp
qed

lemma backoff_schedule_step:
  assumes "a < n"
  shows "backoff_schedule a n
     = Post a # Sleep (min (1000 * 2 ^ (a - 1)) 10000) # backoff_schedule (Suc a) n"
proof -
  have "[a..<Suc n] = a # [Suc a..<Suc n]" using assms by (intro upt_from) simp
  then show ?thesis unfolding backoff_schedule_def using assms by simp
qed

lemma backoff_schedule_last: "backoff_schedule n n = [Post n]"
  by (simp add: backoff_schedule_def)

lemma backoff_schedule_none: "n < a \<Longrightarrow> backoff_schedule a n = []"
  by (simp add: backoff_schedule_def)

lemma loop_schedule:
  "rejects_non_2xx post maxR \<Longrightarrow> 1 \<le> a \<Longrightarrow>
   snd (notify_loop post maxR a e tr)
     = tr @ backoff_schedule a (attempts_made (fst (notify_loop post maxR a e tr)) maxR)"
proof (induction a e tr rule: loop_induct [where post = post and maxR = maxR])
  case (finished a e tr)
  have eq: "notify_loop post maxR a e tr = (Max_retries_exceeded maxR e, tr)"
    using finished.hyps by (intro loop_done) simp_all
  show ?case unfolding eq using finished.hyps by (simp add: backoff_schedule_none)
next
  case (ok a e tr st)
  have eq: "notify_loop post maxR a e tr = (Delivered st a, tr @ [Post a])"
    using ok.hyps by (intro loop_ok) simp_all
  show ?case unfolding eq by (simp add: backoff_schedule_last)
next
  case (bad_status a e tr st)
  have eq: "notify_loop post maxR a e tr
      = notify_loop post maxR (Suc a) (Some (Unexpected_status_code st)) (tr @ [Post a])"
    using bad_status.hyps by (intro loop_bad_status) simp_all
  show ?case using rejects_non_2xx_at [of post maxR a st] bad_status.prems bad_status.hyps by simp
next
  case (bad_status_last e tr st)
  have eq: "notify_loop post maxR maxR e tr
      = (Max_retries_exceeded maxR (Some (Unexpected_status_code st)), tr @ [Post maxR])"
    using bad_status_last.hyps by (intro loop_bad_status_last) simp_all
  show ?case
    using rejects_non_2xx_at [of post maxR maxR st] bad_status_last.prems bad_status_last.hyps
    by simp
next
  case (rejected_sleep a e tr msg)
  have eq: "notify_loop post maxR a e tr
      = notify_loop post maxR (Suc a) (Some (Error_message msg))
          (tr @ [Post a, Sleep (delay a)])"
    using rejected_sleep.hyps by (intro loop_rejected_sleep) simp_all
  let ?n = "attempts_made (fst (notify_loop post maxR (Suc a)
              (Some (Error_message msg)) (tr @ [Post a, Sleep (delay a)]))) maxR"
  have "a < ?n" by (rule loop_attempts_next [OF rejected_sleep.hyps(1)])
  then have "backoff_schedule a ?n
      = Post a # Sleep (min (1000 * 2 ^ (a - 1)) 10000) # backoff_schedule (Suc a) ?n"
    by (rule backoff_schedule_step)
  then show ?case
    unfolding eq using rejected_sleep.IH rejected_sleep.prems by (simp add: delay_def)
next
  case (rejected_last e tr msg)
  have eq: "notify_loop post maxR maxR e tr
      = (Max_retries_exceeded maxR (Some (Error_message msg)), tr @ [Post maxR])"
    using rejected_last.hyps by (intro loop_rejected_last) simp_all
  show ?case unfolding eq by (simp add: backoff_schedule_last)
qed


text \<open>
  Claim C8. For a notifier that is enabled and has a URL: the default of \<open>maxRetries\<close>
  is 3; the attempts posted are 1 to \<open>n\<close>, one after the other, with \<open>n\<close> at most
  \<open>maxRetries\<close>; every attempt before the last was not a response with a status from 200
  to 299; a success result carries the status and the number of the last attempt, whose
  response had a status from 200 to 299; a failure result comes after \<open>maxRetries\<close>
  attempts, none of which had such a response, and carries the error of the last one.
  With axios rejecting every status outside 200 to 299, the posts and sleeps are those of
  the backoff schedule: between attempts \<open>k\<close> and \<open>k + 1\<close> a sleep of
  min(1000 * 2^(k - 1), 10000) ms, and no sleep after the last attempt.
\<close>

theorem notify_retry_policy:
  assumes "enabled w" and "or_else url (defaultUrl w) \<noteq> None"
  shows "maxRetries (new_WebhookNotifier en u t None) = 3 \<and>
    (let res = fst (notify w url post); tr = snd (notify w url post);
         n = attempts_made res (maxRetries w)
     in n \<le> maxRetries w \<and> posts tr = [1..<Suc n] \<and>
        list_all (\<lambda>j. \<not> is_2xx (post j)) [1..<n] \<and>
        (case res of
           Skipped r \<Rightarrow> False
         | Delivered st k \<Rightarrow> k = n \<and> 1 \<le> k \<and> post k = Resolved st \<and> 200 \<le> st \<and> st \<le> 299
         | Max_retries_exceeded m e \<Rightarrow>
             m = maxRetries w \<and> list_all (\<lambda>j. \<not> is_2xx (post j)) [1..<Suc m] \<and>
             e = (if 1 \<le> m then Some (error_of (post m)) else None)) \<and>
        (rejects_non_2xx post (maxRetries w) \<longrightarrow> tr = backoff_schedule 1 n))"
proof -
  let ?m = "maxRetries w"
  let ?r = "notify_loop post ?m 1 None []"
  let ?n = "attempts_made (fst ?r) ?m"
  have n: "notify w url post = ?r" using assms by (auto simp: notify_def)
  have 0: "maxRetries (new_WebhookNotifier en u t None) = 3"
    by (simp add: new_WebhookNotifier_def or_nat_def)
  have 1: "?n \<le> ?m" using loop_attempts [where post = post and maxR = ?m and a = 1 and e = None and tr = "[]"] by simp
  have 2: "posts (snd ?r) = [1..<Suc ?n]" using loop_posts [where post = post and maxR = ?m and a = 1 and e = None and tr = "[]"] by simp
  have 3: "list_all (\<lambda>j. \<not> is_2xx (post j)) [1..<?n]"
    using loop_failures_before [where a = 1 and post = post and maxR = ?m and e = None and tr = "[]"]
    by (auto simp: list_all_iff)
  have 4: "case fst ?r of
           Skipped r \<Rightarrow> False
         | Delivered st k \<Rightarrow> k = ?n \<and> 1 \<le> k \<and> post k = Resolved st \<and> 200 \<le> st \<and> st \<le> 299
         | Max_retries_exceeded m e \<Rightarrow>
             m = ?m \<and> list_all (\<lambda>j. \<not> is_2xx (post j)) [1..<Suc m] \<and>
             e = (if 1 \<le> m then Some (error_of (post m)) else None)"
  proof (cases "fst ?r")
    case (Skipped r)
    then show ?thesis using loop_result [where post = post and maxR = ?m and a = 1 and e = None and tr = "[]"] by simp
  next
    case (Delivered st k)
    then show ?thesis
      using loop_result [where post = post and maxR = ?m and a = 1 and e = None and tr = "[]"] by (auto simp: is_2xx_def)
  next
    case (Max_retries_exceeded m e)
    then have "m = ?m" "e = (if 1 \<le> ?m then Some (error_of (post ?m)) else None)"
      using loop_result [where post = post and maxR = ?m and a = 1 and e = None and tr = "[]"] by simp_all
    moreover have "list_all (\<lambda>j. \<not> is_2xx (post j)) [1..<Suc ?m]"
      using loop_all_failed [OF Max_retries_exceeded] by (auto simp: list_all_iff)
    ultimately show ?thesis using Max_retries_exceeded by simp
  qed
  have 5: "rejects_non_2xx post ?m \<longrightarrow> snd ?r = backoff_schedule 1 ?n"
    using loop_schedule [where post = post and maxR = ?m and a = 1 and e = None and tr = "[]"] by simp
  show ?thesis unfolding n Let_def using 0 1 2 3 4 5 by blast
qed

theorem notify_retry_policy_witness:
  "enabled example_notifier \<and> or_else None (defaultUrl example_notifier) \<noteq> None \<and>
   rejects_non_2xx http_503_twice (maxRetries example_notifier) \<and>
   maxRetries example_notifier = 3 \<and>
   notify example_notifier None http_503_twice
     = (Delivered 200 3, [Post 1, Sleep 1000, Post 2, Sleep 2000, Post 3])"
proof -
  have h1: "enabled example_notifier"
    by (simp add: example_notifier_def new_WebhookNotifier_def)
  have h2: "or_else None (defaultUrl example_notifier) \<noteq> None"
    by (simp add: example_notifier_def new_WebhookNotifier_def or_else_def)
  have m: "maxRetries example_notifier = 3"
    by (simp add: example_notifier_def new_WebhookNotifier_def or_nat_def)
  have h3: "rejects_non_2xx http_503_twice (maxRetries example_notifier)"
    unfolding m by (simp add: rejects_non_2xx_def http_503_twice_def upt_rec)
  have r: "fst (notify example_notifier None http_503_twice) = Delivered 200 3"
    using h1 h2 m
    by (simp add: notify_def notify_loop.simps http_503_twice_def)
  have b: "backoff_schedule 1 3 = [Post 1, Sleep 1000, Post 2, Sleep 2000, Post 3]"
    by (simp add: backoff_schedule_def upt_rec)
  have "snd (notify example_notifier None http_503_twice) = backoff_schedule 1 3"
    using notify_retry_policy [OF h1 h2, where post = http_503_twice] h3 r
    by (simp add: Let_def)
  with r b have "notify example_notifier None http_503_twice
     = (Delivered 200 3, [Post 1, Sleep 1000, Post 2, Sleep 2000, Post 3])"
    by (simp add: prod_eq_iff)
  with h1 h2 h3 m show ?thesis by simp
qed

section \<open>The order of pending tasks\<close>

















end
